theory Spec2Isabelle
  imports Complex_Main "HOL-Library.AList" "HOL-Library.Char_ord" "HOL-Library.List_Lexorder"
begin

section \<open>Errors raised by the two scripts\<close>

text \<open>
  Every exception that the modelled code raises itself, catches, or lets pass through is a
  value of this type. \<open>OtherError\<close> stands for any exception class that the source has no
  handler for.
\<close>

datatype error =
    ValueError string
  | TypeError string
  | InvalidArgumentError
  | OutOfRangeError
  | OtherError string

section \<open>The CRNN predictor (\<open>ctpn-crnn/crnn/predict.py\<close>)\<close>

subsection \<open>Library functions used by the script\<close>

text \<open>\<open>str.endswith\<close>: the last \<open>len(suf)\<close> characters of \<open>s\<close> are \<open>suf\<close>.\<close>

definition endswith :: "string \<Rightarrow> string \<Rightarrow> bool" where
  "endswith s suf \<longleftrightarrow> length suf \<le> length s \<and> drop (length s - length suf) s = suf"

text \<open>
  \<open>os.path.join(a, b)\<close> of \<open>posixpath\<close>: an absolute \<open>b\<close> replaces \<open>a\<close>; otherwise the
  separator is inserted unless \<open>a\<close> is empty or already ends with it.
\<close>

definition os_path_join :: "string \<Rightarrow> string \<Rightarrow> string" where
  "os_path_join a b =
     (if b \<noteq> [] \<and> hd b = CHR ''/'' then b
      else if a = [] \<or> last a = CHR ''/'' then a @ b
      else a @ ''/'' @ b)"

text \<open>\<open>os.path.basename(p)\<close>: everything after the last separator of \<open>p\<close>.\<close>

definition os_path_basename :: "string \<Rightarrow> string" where
  "os_path_basename p = rev (takeWhile (\<lambda>c. c \<noteq> CHR ''/'') (rev p))"

subsection \<open>\<open>get_images\<close>\<close>

definition exts :: "string list" where
  "exts = [''jpg'', ''png'', ''jpeg'', ''JPG'']"

text \<open>
  The innermost loop of \<open>get_images\<close>: the extensions are tried in order, the first one that
  the file name ends with appends the joined path and leaves the loop (\<open>break\<close>).
\<close>

fun try_exts :: "string \<Rightarrow> string \<Rightarrow> string list \<Rightarrow> string list \<Rightarrow> string list" where
  "try_exts parent filename [] files = files"
| "try_exts parent filename (ext # rest) files =
     (if endswith filename ext then files @ [os_path_join parent filename]
      else try_exts parent filename rest files)"

text \<open>
  \<open>os.walk(FLAGS.test_data_path)\<close> is the input: the list of triples
  \<open>(parent, dirnames, filenames)\<close> that the walk yields, in the order it yields them.
\<close>

type_synonym walk = "(string \<times> string list \<times> string list) list"

definition get_images :: "walk \<Rightarrow> string list" where
  "get_images w =
     fold (\<lambda>(parent, dirnames, filenames) files.
             fold (\<lambda>filename fs. try_exts parent filename exts fs) filenames files)
          w []"

subsection \<open>The main block\<close>

text \<open>
  The model starts where the script first touches the file system (line 89); building the
  network and loading its weights (lines 80 to 85) happen before and are not part of it.
  \<open>Image.open(im_fn)\<close> followed by \<open>crnn_recognition(image, model)\<close> is the parameter
  \<open>recognise\<close>: the recognised text, or the exception that opening or inference raised.
  The output file is its content: \<open>open(path, "a")\<close> leaves what is there (nothing when the
  file is new) and every write lands at the end. Leaving the \<open>with\<close> block closes the
  file on every path, so what was written before an exception stays in the file.
\<close>

definition title :: string where
  "title = ''name,label'' @ [CHR 0x0D, CHR 0x0A]"

text \<open>Lines 99 to 101: the row of one image.\<close>

definition csv_line :: "string \<Rightarrow> string \<Rightarrow> string" where
  "csv_line im_fn result = os_path_basename im_fn @ '','' @ result @ [CHR 0x0D, CHR 0x0A]"

fun write_rows :: "(string \<Rightarrow> error + string) \<Rightarrow> string list \<Rightarrow> string \<Rightarrow> string \<times> error option" where
  "write_rows recognise [] f = (f, None)"
| "write_rows recognise (im_fn # rest) f =
     (case recognise im_fn of
        Inl e \<Rightarrow> (f, Some e)
      | Inr result \<Rightarrow> write_rows recognise rest (f @ csv_line im_fn result))"

definition predict_main :: "walk \<Rightarrow> (string \<Rightarrow> error + string) \<Rightarrow> string \<Rightarrow> string \<times> error option" where
  "predict_main w recognise old_content =
     (let im_fn_list = get_images w
      in write_rows recognise im_fn_list (old_content @ title))"

section \<open>The checkpoint evaluation loop (\<open>aster/eval_util.py\<close>)\<close>

subsection \<open>What the program does to the outside: events\<close>

text \<open>
  The calls into TensorFlow that change something outside the function are recorded, in
  the order they happen, as a list of events. Calls to \<open>logging.info\<close> are not events.
  Time is a real number of seconds.
\<close>

datatype 'm event =
    NewSession string
  | RunInitializers
  | CallRestoreFn
  | SaverRestore "string option"
  | WriteGraph string
  | QueueRunnersEnter
  | RunBatch nat
  | RunMetricValues
  | FileWriterOpen string
  | AddSummary string 'm int
  | FileWriterClose
  | QueueRunnersExit
  | SessionClose
  | Sleep real

type_synonym 'm metrics = "(string \<times> 'm) list"
type_synonym 'v result_dict = "(string \<times> 'v) list"
type_synonym 'v result_lists = "string \<rightharpoonup> 'v list"

text \<open>The dictionary \<open>counters = {'skipped': 0, 'success': 0}\<close>.\<close>

record counters =
  skipped :: int
  success :: int

subsection \<open>\<open>write_metrics\<close>\<close>

text \<open>
  One summary per key, keys in sorted order, between opening and closing the
  \<open>FileWriter\<close>.
\<close>

definition write_metrics :: "'m metrics \<Rightarrow> int \<Rightarrow> string \<Rightarrow> 'm event list" where
  "write_metrics metrics global_step summary_dir =
     [FileWriterOpen summary_dir]
     @ map (\<lambda>(key, v). AddSummary key v global_step) (sort_key fst metrics)
     @ [FileWriterClose]"

text \<open>\<open>d.update(other)\<close> on dictionaries kept as association lists.\<close>

definition dict_update :: "('k \<times> 'a) list \<Rightarrow> ('k \<times> 'a) list \<Rightarrow> ('k \<times> 'a) list" where
  "dict_update d other = fold (\<lambda>(k, v). AList.update k v) other d"

subsection \<open>Arguments and the framework's behaviour\<close>

text \<open>
  The arguments of \<open>run_checkpoint_once\<close>. Tensors are opaque, so \<open>tensor_dict\<close> is the
  list of its keys and \<open>metric_names_to_values\<close> the list of its metric names;
  \<open>update_op\<close> and \<open>variables_to_restore\<close> are only handed on to TensorFlow and are left
  out. A callback is what it does when called:
  \<^item> \<open>aggregated_result_processor\<close> returns the metrics or raises;
  \<^item> \<open>batch_processor\<close>, called with the batch index and the counters (which it may
    change), returns the batch's result dictionary or raises;
  \<^item> \<open>restore_fn\<close> restores (\<open>None\<close>) or raises (\<open>Some e\<close>).
\<close>

record ('v, 'm) eval_args =
  tensor_dict :: "string list"
  summary_dir :: string
  aggregated_result_processor :: "('v result_lists \<Rightarrow> error + 'm metrics) option"
  batch_processor :: "(nat \<Rightarrow> counters \<Rightarrow> (error + 'v result_dict) \<times> counters) option"
  checkpoint_dirs :: "string list option"
  restore_fn :: "error option option"
  num_batches :: int
  master :: string
  save_graph :: bool
  save_graph_dir :: string
  metric_names_to_values :: "string list option"
  keys_to_exclude_from_results :: "string list"

text \<open>
  What TensorFlow answers during one pass: the latest checkpoint of a directory, whether
  \<open>saver.restore\<close> succeeds on a checkpoint file, what \<open>sess.run([tensor_dict, update_op])\<close>
  gives at each batch, what \<open>sess.run(metric_names_to_values)\<close> gives, and the global step.
  Creating the session, running the initialisers, writing the graph, reading the global
  step and writing summaries are taken to succeed.
\<close>

record ('v, 'm) tf_env =
  latest_checkpoint :: "string \<Rightarrow> string option"
  saver_restore :: "string option \<Rightarrow> error option"
  sess_run_batch :: "nat \<Rightarrow> error + 'v result_dict"
  sess_run_metrics :: "error + 'm metrics"
  train_global_step :: int

subsection \<open>\<open>run_checkpoint_once\<close>\<close>

text \<open>Lines 140 to 147: restoring the variables.\<close>

definition restore_variables ::
  "('v, 'm) eval_args \<Rightarrow> ('v, 'm) tf_env \<Rightarrow> 'm event list \<times> error option" where
  "restore_variables a env =
     (case restore_fn a of
        Some outcome \<Rightarrow> ([CallRestoreFn], outcome)
      | None \<Rightarrow>
          (case checkpoint_dirs a of
             None \<Rightarrow> ([], Some (ValueError ''`checkpoint_dirs` must have at least one entry.''))
           | Some [] \<Rightarrow> ([], Some (ValueError ''`checkpoint_dirs` must have at least one entry.''))
           | Some (d # _) \<Rightarrow>
               (let checkpoint_file = latest_checkpoint env d
                in ([SaverRestore checkpoint_file], saver_restore env checkpoint_file))))"

text \<open>Line 152: the keys of \<open>tensor_dict\<close> that are not excluded.\<close>

definition valid_keys :: "('v, 'm) eval_args \<Rightarrow> string list" where
  "valid_keys a = filter (\<lambda>key. key \<notin> set (keys_to_exclude_from_results a)) (tensor_dict a)"

text \<open>Line 153: an empty list for every valid key.\<close>

definition init_result_lists :: "string list \<Rightarrow> 'v result_lists" where
  "init_result_lists keys = (\<lambda>key. if key \<in> set keys then Some [] else None)"

text \<open>
  Lines 161 to 171: one batch. Without a \<open>batch_processor\<close> the session runs the tensors;
  \<open>InvalidArgumentError\<close> is caught there and gives the empty dictionary, any other
  exception leaves the loop. With a \<open>batch_processor\<close> nothing is caught here.
\<close>

definition process_batch ::
  "('v, 'm) eval_args \<Rightarrow> ('v, 'm) tf_env \<Rightarrow> nat \<Rightarrow> counters \<Rightarrow> (error + 'v result_dict) \<times> counters" where
  "process_batch a env batch c =
     (case batch_processor a of
        None \<Rightarrow>
          (case sess_run_batch env batch of
             Inr result_dict \<Rightarrow> (Inr result_dict, c\<lparr>success := success c + 1\<rparr>)
           | Inl e \<Rightarrow>
               if e = InvalidArgumentError then (Inr [], c\<lparr>skipped := skipped c + 1\<rparr>)
               else (Inl e, c))
      | Some bp \<Rightarrow> bp batch c)"

text \<open>
  Lines 172 to 174. A key that passes \<open>key in valid_keys\<close> is a key of \<open>result_lists\<close>
  (lemma \<open>dom_append_results\<close> below), so the lookup \<open>result_lists[key]\<close> finds it.
\<close>

definition append_results :: "string list \<Rightarrow> 'v result_dict \<Rightarrow> 'v result_lists \<Rightarrow> 'v result_lists" where
  "append_results keys result_dict rl =
     fold (\<lambda>(key, v) rl.
             if key \<in> set keys
             then (case rl key of Some xs \<Rightarrow> rl(key \<mapsto> xs @ [v]) | None \<Rightarrow> rl)
             else rl)
          result_dict rl"

record ('v, 'm) loop_state =
  result_lists :: "'v result_lists"
  counts :: counters
  trace :: "'m event list"

text \<open>
  Lines 158 to 174: the batch loop over \<open>range(int(num_batches))\<close>. It returns the state
  it reached and the exception that ended it, if one did.
\<close>

fun run_batches ::
  "('v, 'm) eval_args \<Rightarrow> ('v, 'm) tf_env \<Rightarrow> nat list \<Rightarrow> ('v, 'm) loop_state
   \<Rightarrow> ('v, 'm) loop_state \<times> error option" where
  "run_batches a env [] s = (s, None)"
| "run_batches a env (batch # rest) s =
     (case process_batch a env batch (counts s) of
        (Inl e, c) \<Rightarrow> (s\<lparr>counts := c, trace := trace s @ [RunBatch batch]\<rparr>, Some e)
      | (Inr result_dict, c) \<Rightarrow>
          run_batches a env rest
            (s\<lparr>result_lists := append_results (valid_keys a) result_dict (result_lists s),
               counts := c,
               trace := trace s @ [RunBatch batch]\<rparr>))"

text \<open>
  Lines 158 to 176, the body of the \<open>try\<close>: the batch loop, then the metric tensors when
  \<open>metric_names_to_values\<close> is given. Besides the state it returns \<open>other_metrics\<close> and the
  exception raised in the body, if any.
\<close>

definition try_body ::
  "('v, 'm) eval_args \<Rightarrow> ('v, 'm) tf_env \<Rightarrow> ('v, 'm) loop_state
   \<Rightarrow> ('v, 'm) loop_state \<times> 'm metrics option \<times> error option" where
  "try_body a env s =
     (case run_batches a env [0 ..< nat (num_batches a)] s of
        (s', Some e) \<Rightarrow> (s', None, Some e)
      | (s', None) \<Rightarrow>
          (case metric_names_to_values a of
             None \<Rightarrow> (s', None, None)
           | Some _ \<Rightarrow>
               (case sess_run_metrics env of
                  Inl e \<Rightarrow> (s'\<lparr>trace := trace s' @ [RunMetricValues]\<rparr>, None, Some e)
                | Inr other \<Rightarrow> (s'\<lparr>trace := trace s' @ [RunMetricValues]\<rparr>, Some other, None))))"

text \<open>
  Lines 182 to 186, the \<open>finally\<close> block: aggregate, merge \<open>other_metrics\<close>, write. The
  default \<open>aggregated_result_processor=None\<close> is not callable.
\<close>

definition finally_block ::
  "('v, 'm) eval_args \<Rightarrow> ('v, 'm) tf_env \<Rightarrow> 'v result_lists \<Rightarrow> 'm metrics option
   \<Rightarrow> 'm event list \<times> error option" where
  "finally_block a env rl other_metrics =
     (case aggregated_result_processor a of
        None \<Rightarrow> ([], Some (TypeError ([CHR 0x27] @ ''NoneType'' @ [CHR 0x27]
                                         @ '' object is not callable'')))
      | Some f \<Rightarrow>
          (case f rl of
             Inl e \<Rightarrow> ([], Some e)
           | Inr metrics \<Rightarrow>
               (let metrics' = (case other_metrics of
                                  None \<Rightarrow> metrics
                                | Some other \<Rightarrow> dict_update metrics other)
                in (write_metrics metrics' (train_global_step env) (summary_dir a), None))))"

text \<open>
  Lines 156 to 188: the \<open>with\<close> block. \<open>OutOfRangeError\<close> from the body is caught; the
  \<open>finally\<close> block runs on every path; an exception it raises replaces the pending one,
  otherwise a pending exception other than \<open>OutOfRangeError\<close> goes on. Leaving the
  \<open>with\<close> block exits the queue runners on every path.
\<close>

definition with_queue_runners ::
  "('v, 'm) eval_args \<Rightarrow> ('v, 'm) tf_env \<Rightarrow> ('v, 'm) loop_state \<Rightarrow> 'm event list \<times> error option" where
  "with_queue_runners a env s0 =
     (case try_body a env (s0\<lparr>trace := trace s0 @ [QueueRunnersEnter]\<rparr>) of
        (s1, other_metrics, raised) \<Rightarrow>
          (let pending = (if raised = Some OutOfRangeError then None else raised)
           in case finally_block a env (result_lists s1) other_metrics of
                (tr, Some e) \<Rightarrow> (trace s1 @ tr @ [QueueRunnersExit], Some e)
              | (tr, None) \<Rightarrow> (trace s1 @ tr @ [QueueRunnersExit], pending)))"

definition run_checkpoint_once ::
  "('v, 'm) eval_args \<Rightarrow> ('v, 'm) tf_env \<Rightarrow> 'm event list \<times> error option" where
  "run_checkpoint_once a env =
     (if save_graph a \<and> save_graph_dir a = []
      then ([], Some (ValueError ''`save_graph_dir` must be defined.''))
      else
        (case restore_variables a env of
           (tr1, Some e) \<Rightarrow> ([NewSession (master a), RunInitializers] @ tr1, Some e)
         | (tr1, None) \<Rightarrow>
             (let tr2 = [NewSession (master a), RunInitializers] @ tr1
                        @ (if save_graph a then [WriteGraph (save_graph_dir a)] else []);
                  s0 = \<lparr>result_lists = init_result_lists (valid_keys a),
                        counts = \<lparr>skipped = 0, success = 0\<rparr>,
                        trace = tr2\<rparr>
              in case with_queue_runners a env s0 of
                   (tr, Some e) \<Rightarrow> (tr, Some e)
                 | (tr, None) \<Rightarrow> (tr @ [SessionClose], None))))"

subsection \<open>\<open>repeated_checkpoint_run\<close>\<close>

text \<open>
  What lies outside the polling loop: for the iteration that starts when
  \<open>number_of_evaluations\<close> is \<open>i\<close>, the framework's behaviour \<open>tf_at i\<close> (its
  \<open>latest_checkpoint\<close> answers the poll) and the seconds \<open>time_spent i\<close> that pass between
  the two readings of \<open>time.time()\<close>; and the time \<open>start_time\<close> when the function is
  called.
\<close>

record ('v, 'm) world =
  tf_at :: "nat \<Rightarrow> ('v, 'm) tf_env"
  time_spent :: "nat \<Rightarrow> real"
  start_time :: real

record 'm poll_state =
  last_evaluated_model_path :: "string option"
  number_of_evaluations :: nat
  clock :: real
  events :: "'m event list"

datatype step_result = Raised error | Finished | Continue

text \<open>Python's truth value of an optional integer: \<open>None\<close> and \<open>0\<close> are false.\<close>

definition truthy :: "int option \<Rightarrow> bool" where
  "truthy m \<longleftrightarrow> (case m of None \<Rightarrow> False | Some k \<Rightarrow> k \<noteq> 0)"

text \<open>
  Lines 275 to 301: one iteration of \<open>while True\<close>. \<open>dir0\<close> is \<open>checkpoint_dirs[0]\<close>. An
  exception of the pass leaves the function; \<open>Finished\<close> is the \<open>break\<close>.
\<close>

definition poll_iteration ::
  "('v, 'm) eval_args \<Rightarrow> real \<Rightarrow> int option \<Rightarrow> ('v, 'm) world \<Rightarrow> string \<Rightarrow> 'm poll_state
   \<Rightarrow> 'm poll_state \<times> step_result" where
  "poll_iteration a eval_interval_secs max_number_of_evaluations w dir0 s =
     (let i = number_of_evaluations s;
          start = clock s;
          model_path = latest_checkpoint (tf_at w i) dir0;
          (s1, raised) =
            (if model_path = None \<or> model_path = Some [] then (s, None)
             else if model_path = last_evaluated_model_path s then (s, None)
             else (case run_checkpoint_once a (tf_at w i) of
                     (tr, r) \<Rightarrow>
                       (s\<lparr>last_evaluated_model_path := model_path,
                          events := events s @ tr\<rparr>, r)));
          s2 = s1\<lparr>clock := clock s1 + time_spent w i\<rparr>
      in case raised of
           Some e \<Rightarrow> (s2, Raised e)
         | None \<Rightarrow>
             (let s3 = s2\<lparr>number_of_evaluations := number_of_evaluations s2 + 1\<rparr>
              in if truthy max_number_of_evaluations
                    \<and> int (number_of_evaluations s3) \<ge> the max_number_of_evaluations
                 then (s3, Finished)
                 else
                   (let time_to_next_eval = start + eval_interval_secs - clock s3
                    in if time_to_next_eval > 0
                       then (s3\<lparr>clock := clock s3 + time_to_next_eval,
                                events := events s3 @ [Sleep time_to_next_eval]\<rparr>, Continue)
                       else (s3, Continue))))"

text \<open>
  The \<open>while True\<close> loop. It need not end: the result \<open>None\<close> is a run that never returns,
  \<open>Some (s, None)\<close> one that left by \<open>break\<close> in state \<open>s\<close>, \<open>Some (s, Some e)\<close> one
  that raised \<open>e\<close>.
\<close>

partial_function (option) polling_loop ::
  "('v, 'm) eval_args \<Rightarrow> real \<Rightarrow> int option \<Rightarrow> ('v, 'm) world \<Rightarrow> string \<Rightarrow> 'm poll_state
   \<Rightarrow> ('m poll_state \<times> error option) option" where
  "polling_loop a eval_interval_secs max_number_of_evaluations w dir0 s =
     (case poll_iteration a eval_interval_secs max_number_of_evaluations w dir0 s of
        (s', Continue) \<Rightarrow> polling_loop a eval_interval_secs max_number_of_evaluations w dir0 s'
      | (s', Finished) \<Rightarrow> Some (s', None)
      | (s', Raised e) \<Rightarrow> Some (s', Some e))"

definition initial_poll_state :: "('v, 'm) world \<Rightarrow> 'm poll_state" where
  "initial_poll_state w =
     \<lparr>last_evaluated_model_path = None, number_of_evaluations = 0,
      clock = start_time w, events = []\<rparr>"

definition repeated_checkpoint_run ::
  "('v, 'm) eval_args \<Rightarrow> real \<Rightarrow> int option \<Rightarrow> ('v, 'm) world
   \<Rightarrow> ('m poll_state \<times> error option) option" where
  "repeated_checkpoint_run a eval_interval_secs max_number_of_evaluations w =
     (if truthy max_number_of_evaluations \<and> the max_number_of_evaluations \<le> 0
      then Some (initial_poll_state w,
                 Some (ValueError ''`number_of_steps` must be either None or a positive number.''))
      else
        (case checkpoint_dirs a of
           None \<Rightarrow> Some (initial_poll_state w,
                         Some (ValueError ''`checkpoint_dirs` must have at least one entry.''))
         | Some [] \<Rightarrow> Some (initial_poll_state w,
                            Some (ValueError ''`checkpoint_dirs` must have at least one entry.''))
         | Some (dir0 # _) \<Rightarrow>
             polling_loop a eval_interval_secs max_number_of_evaluations w dir0
               (initial_poll_state w)))"

subsection \<open>\<open>evaluate_recognition_results\<close>\<close>

definition expected_keys :: "string list" where
  "expected_keys = [''groundtruth_text'', ''recognition_text'', ''filename'']"

text \<open>
  Lines 304 to 322. The scoring class \<open>RecognitionEvaluation\<close> is the parameter
  \<open>evaluate_all\<close>: what it returns, or raises, for the list of
  \<open>(image_id, recognition_text, groundtruth_text)\<close> triples added to it. The lookups
  come after the key check, which makes them succeed.
\<close>

definition evaluate_recognition_results ::
  "(('v \<times> 'v \<times> 'v) list \<Rightarrow> error + 'm metrics) \<Rightarrow> 'v result_lists \<Rightarrow> error + 'm metrics" where
  "evaluate_recognition_results evaluate_all rl =
     (if \<not> list_all (\<lambda>key. rl key \<noteq> None) expected_keys
      then Inl (ValueError ''result_lists does not have expected key set.'')
      else
        (let num_results = length (the (rl (hd expected_keys)))
         in if list_ex (\<lambda>key. length (the (rl key)) \<noteq> num_results) expected_keys
            then Inl (ValueError ''Inconsistent list sizes in result_lists'')
            else evaluate_all
                   (zip (the (rl ''filename''))
                      (zip (the (rl ''recognition_text'')) (the (rl ''groundtruth_text''))))))"

subsection \<open>Describing a run\<close>

text \<open>
  Two notions that the source does not name but its runs determine; they are used to
  state what a run did, and lemmas below tie them to the functions above.

  The result dictionaries that the batches of the loop returned, in the order of the
  batches, up to the batch that raised an exception, if one did. The counters are passed
  along as \<open>run_batches\<close> passes them, since a \<open>batch_processor\<close> may read them. A
  batch skipped for \<open>InvalidArgumentError\<close> returns the empty dictionary.
\<close>

fun returned_dicts ::
  "('v, 'm) eval_args \<Rightarrow> ('v, 'm) tf_env \<Rightarrow> nat list \<Rightarrow> counters \<Rightarrow> 'v result_dict list" where
  "returned_dicts a env [] c = []"
| "returned_dicts a env (batch # rest) c =
     (case process_batch a env batch c of
        (Inl e, c') \<Rightarrow> []
      | (Inr result_dict, c') \<Rightarrow> result_dict # returned_dicts a env rest c')"

text \<open>
  The value of \<open>last_evaluated_model_path\<close> when the iteration with index \<open>i\<close> of the
  polling loop starts, in a run that began in the initial state and in which no
  exception has left the loop: the latest usable answer of the polls before \<open>i\<close>. The
  iteration \<open>i\<close> runs a pass when its poll gives a path that is not that value.
\<close>

fun last_path_before :: "('v, 'm) world \<Rightarrow> string \<Rightarrow> nat \<Rightarrow> string option" where
  "last_path_before w dir0 0 = None"
| "last_path_before w dir0 (Suc i) =
     (let model_path = latest_checkpoint (tf_at w i) dir0
      in if model_path = None \<or> model_path = Some [] then last_path_before w dir0 i
         else model_path)"

definition pass_runs_at :: "('v, 'm) world \<Rightarrow> string \<Rightarrow> nat \<Rightarrow> bool" where
  "pass_runs_at w dir0 i \<longleftrightarrow>
     (let model_path = latest_checkpoint (tf_at w i) dir0
      in \<not> (model_path = None \<or> model_path = Some []
             \<or> model_path = last_path_before w dir0 i))"

subsection \<open>Notation for the statements\<close>

text \<open>
  Batch \<open>b\<close> produces a result for the field \<open>key\<close> when the session returns a
  dictionary that has this key.
\<close>

abbreviation produces :: "('v, 'm) tf_env \<Rightarrow> string \<Rightarrow> nat \<Rightarrow> bool" where
  "produces env key b \<equiv>
     (case sess_run_batch env b of Inr d \<Rightarrow> key \<in> fst ` set d | Inl e \<Rightarrow> False)"

text \<open>
  An example configuration: three batches of which the second is rejected with
  \<open>InvalidArgumentError\<close>, the field \<open>image\<close> excluded from the results, and an
  aggregation function that counts the file names.
\<close>

abbreviation example_args :: "(string, int) eval_args" where
  "example_args \<equiv>
     \<lparr>tensor_dict = [''filename'', ''image''], summary_dir = ''s'',
      aggregated_result_processor =
        Some (\<lambda>rl. Inr [(''n'', int (length (the (rl ''filename''))))]),
      batch_processor = None, checkpoint_dirs = Some [''ckpt''], restore_fn = None,
      num_batches = 3, master = [], save_graph = False, save_graph_dir = [],
      metric_names_to_values = None, keys_to_exclude_from_results = [''image'']\<rparr>"

abbreviation example_env :: "(string, int) tf_env" where
  "example_env \<equiv>
     \<lparr>latest_checkpoint = (\<lambda>d. Some ''ckpt/model-1''), saver_restore = (\<lambda>f. None),
      sess_run_batch = (\<lambda>b. if b = 1 then Inl InvalidArgumentError
                             else Inr [(''filename'', ''a''), (''image'', ''x'')]),
      sess_run_metrics = Inr [], train_global_step = 7\<rparr>"

text \<open>
  The example with \<open>evaluate_recognition_results\<close> as aggregation function (its result
  fields lack \<open>groundtruth_text\<close> and \<open>recognition_text\<close>).
\<close>

abbreviation recognition_args :: "(string, int) eval_args" where
  "recognition_args \<equiv>
     example_args\<lparr>aggregated_result_processor :=
                    Some (evaluate_recognition_results (\<lambda>infos. Inr [(''accuracy'', 1)]))\<rparr>"

text \<open>
  The passes that reached the batch loop are counted by their entries into the
  queue-runner context. In the example world the same checkpoint is found at every poll
  and every iteration takes thirty seconds.
\<close>

abbreviation passes_entered :: "'m event list \<Rightarrow> nat" where
  "passes_entered evs \<equiv> length (filter (\<lambda>e. e = QueueRunnersEnter) evs)"

abbreviation example_world :: "(string, int) world" where
  "example_world \<equiv> \<lparr>tf_at = (\<lambda>i. example_env), time_spent = (\<lambda>i. 30), start_time = 0\<rparr>"

text \<open>
  Examples with a \<open>batch_processor\<close>: one that returns a full dictionary for every batch
  and leaves the counters alone, and one that counts its successes and finds the input
  exhausted at the second batch. And a world in which the same checkpoint is found at
  every poll but restoring fails from the second iteration on.
\<close>

abbreviation processor_args :: "(string, int) eval_args" where
  "processor_args \<equiv>
     example_args\<lparr>batch_processor :=
       Some (\<lambda>batch c. (Inr [(''filename'', ''a''), (''image'', ''x'')], c))\<rparr>"


abbreviation flaky_world :: "(string, int) world" where
  "flaky_world \<equiv>
     \<lparr>tf_at = (\<lambda>i. if i = 0 then example_env
                    else example_env\<lparr>saver_restore := (\<lambda>f. Some (OtherError ''restore''))\<rparr>),
      time_spent = (\<lambda>i. 30), start_time = 0\<rparr>"

text \<open>
  The events by the part of a pass they belong to: setting up the session, running the
  batches, writing the summaries.
\<close>

abbreviation setup_events :: "'m event set" where
  "setup_events \<equiv> {RunInitializers, CallRestoreFn} \<union> range NewSession \<union> range SaverRestore
                    \<union> range WriteGraph"

abbreviation write_events :: "'m event set" where
  "write_events \<equiv> {FileWriterClose} \<union> range FileWriterOpen \<union> {e. \<exists>k v g. e = AddSummary k v g}"

abbreviation batch_events :: "'m event set" where
  "batch_events \<equiv> {RunMetricValues} \<union> range RunBatch"

subsection \<open>The wording of the specification, for comparison\<close>

text \<open>
  The specification speaks of files that have one of four extensions. The extension of a
  file name is what follows its last dot; a name without a dot has none. This definition
  follows those words, not the code; \<open>get_images\<close> above is the code.
\<close>

definition spec_extension :: "string \<Rightarrow> string option" where
  "spec_extension name =
     (if CHR ''.'' \<in> set name
      then Some (rev (takeWhile (\<lambda>c. c \<noteq> CHR ''.'') (rev name)))
      else None)"

definition spec_has_image_extension :: "string \<Rightarrow> bool" where
  "spec_has_image_extension name \<longleftrightarrow>
     (case spec_extension name of None \<Rightarrow> False | Some e \<Rightarrow> e \<in> set exts)"

text \<open>The rows that a run writes: one per image, up to the first image that fails.\<close>

abbreviation rows_written :: "(string \<Rightarrow> error + string) \<Rightarrow> string list \<Rightarrow> string" where
  "rows_written recognise files \<equiv>
     concat (map (\<lambda>im_fn. csv_line im_fn (projr (recognise im_fn)))
                 (takeWhile (\<lambda>im_fn. \<not> isl (recognise im_fn)) files))"

section \<open>Properties of the CRNN predictor\<close>

lemma try_exts_eq:
  "try_exts parent filename es files =
     (if list_ex (endswith filename) es then files @ [os_path_join parent filename] else files)"
  by (induction es) auto

lemma fold_try_exts:
  "fold (\<lambda>filename fs. try_exts parent filename exts fs) filenames files =
     files @ map (os_path_join parent) (filter (\<lambda>f. list_ex (endswith f) exts) filenames)"
  by (induction filenames arbitrary: files) (auto simp: try_exts_eq)

lemma fold_walk:
  "fold (\<lambda>(parent, dirnames, filenames) files.
             fold (\<lambda>filename fs. try_exts parent filename exts fs) filenames files) w files =
   files @ concat (map (\<lambda>(parent, dirnames, filenames).
        map (os_path_join parent) (filter (\<lambda>f. list_ex (endswith f) exts) filenames)) w)"
  by (induction w arbitrary: files) (auto simp: fold_try_exts)

lemma get_images_eq:
  "get_images w = concat (map (\<lambda>(parent, dirnames, filenames).
        map (os_path_join parent) (filter (\<lambda>f. list_ex (endswith f) exts) filenames)) w)"
  by (simp add: get_images_def fold_walk)

lemma write_rows_content:
  "fst (write_rows recognise files f) = f @ rows_written recognise files"
  by (induction files arbitrary: f) (auto split: sum.splits)

lemma write_rows_ok:
  "list_all (\<lambda>im_fn. \<not> isl (recognise im_fn)) files \<Longrightarrow>
   write_rows recognise files f =
     (f @ concat (map (\<lambda>im_fn. csv_line im_fn (projr (recognise im_fn))) files), None)"
  by (induction files arbitrary: f) (auto split: sum.splits)

lemma takeWhile_rev_no_sep:
  "CHR ''/'' \<notin> set b \<Longrightarrow> takeWhile (\<lambda>c. c \<noteq> CHR ''/'') (rev b @ CHR ''/'' # xs) = rev b"
  by (induction b rule: rev_induct) auto

lemma takeWhile_rev_all:
  "CHR ''/'' \<notin> set b \<Longrightarrow> takeWhile (\<lambda>c. c \<noteq> CHR ''/'') (rev b) = rev b"
  by (induction b rule: rev_induct) auto

lemma basename_after_sep:
  "CHR ''/'' \<notin> set b \<Longrightarrow> os_path_basename (a @ CHR ''/'' # b) = b"
  by (simp add: os_path_basename_def takeWhile_rev_no_sep)

lemma basename_plain:
  "CHR ''/'' \<notin> set b \<Longrightarrow> os_path_basename b = b"
  by (simp add: os_path_basename_def takeWhile_rev_all)

lemma basename_join:
  assumes "CHR ''/'' \<notin> set filename"
  shows "os_path_basename (os_path_join parent filename) = filename"
proof -
  have nohd: "\<not> (filename \<noteq> [] \<and> hd filename = CHR ''/'')"
    using assms by (cases filename) auto
  show ?thesis
  proof (cases "parent = []")
    case True
    then show ?thesis using nohd basename_plain[OF assms]
      by (auto simp: os_path_join_def)
  next
    case False
    then obtain p c where pc: "parent = p @ [c]" by (metis rev_exhaust)
    show ?thesis
    proof (cases "c = CHR ''/''")
      case True
      then show ?thesis using nohd pc basename_after_sep[OF assms, of p]
        by (auto simp: os_path_join_def)
    next
      case False
      then show ?thesis using nohd pc basename_after_sep[OF assms, of "p @ [c]"]
        by (auto simp: os_path_join_def)
    qed
  qed
qed

text \<open>
  Claim C9, as stated: the predictor selects exactly the files whose names have one of the
  extensions jpg, png, jpeg, JPG. It fails: \<open>get_images\<close> tests the end of the name, with no
  dot, so the file \<open>notjpg\<close>, which has no extension, is selected.
\<close>

theorem get_images_selects_file_without_extension:
  "get_images [(''d'', [], [''notjpg''])] = [''d/notjpg'']
   \<and> \<not> spec_has_image_extension ''notjpg''"
  by (simp add: get_images_def exts_def endswith_def os_path_join_def
        spec_has_image_extension_def spec_extension_def)

text \<open>
  Claim C9, amended: from the walk of the input directory the predictor selects, in walk
  order and each once, exactly the files whose names end with one of the strings jpg, png,
  jpeg, JPG (a dot before them is not required); when inference succeeds on every selected
  file, the run appends to the output file the header and then one row per selected file,
  and the row of a file is its base name, a comma, the recognised text and CR LF.
\<close>

theorem predictor_selects_by_suffix_and_writes_rows:
  "get_images w =
     concat (map (\<lambda>(parent, dirnames, filenames).
                    map (os_path_join parent)
                        (filter (\<lambda>f. list_ex (endswith f) exts) filenames)) w)
   \<and> (list_all (\<lambda>im_fn. \<not> isl (recognise im_fn)) (get_images w) \<longrightarrow>
        predict_main w recognise old =
          (old @ title
           @ concat (map (\<lambda>im_fn. csv_line im_fn (projr (recognise im_fn))) (get_images w)),
           None))
   \<and> (CHR ''/'' \<notin> set filename \<longrightarrow>
        csv_line (os_path_join parent filename) result
          = filename @ '','' @ result @ [CHR 0x0D, CHR 0x0A])"
  by (simp add: get_images_eq [symmetric] predict_main_def write_rows_ok csv_line_def basename_join)

theorem predictor_selects_by_suffix_and_writes_rows_witness:
  "get_images [(''d'', [], [''a.jpg'', ''b.txt'', ''c.PNG'', ''notjpg''])] = [''d/a.jpg'', ''d/notjpg'']
   \<and> list_all (\<lambda>im_fn. \<not> isl ((\<lambda>p. Inr ''ab'' :: error + string) im_fn))
        (get_images [(''d'', [], [''a.jpg'', ''b.txt'', ''c.PNG'', ''notjpg''])])
   \<and> predict_main [(''d'', [], [''a.jpg'', ''b.txt'', ''c.PNG'', ''notjpg''])] (\<lambda>p. Inr ''ab'') ''x''
       = (''x'' @ ''name,label'' @ [CHR 0x0D, CHR 0x0A]
          @ ''a.jpg,ab'' @ [CHR 0x0D, CHR 0x0A] @ ''notjpg,ab'' @ [CHR 0x0D, CHR 0x0A], None)
   \<and> CHR ''/'' \<notin> set ''a.jpg''
   \<and> csv_line (os_path_join ''d'' ''a.jpg'') ''ab'' = ''a.jpg,ab'' @ [CHR 0x0D, CHR 0x0A]"
  using predictor_selects_by_suffix_and_writes_rows
          [of "[(''d'', [], [''a.jpg'', ''b.txt'', ''c.PNG'', ''notjpg''])]"
              "\<lambda>p. Inr ''ab''" "''x''" "''a.jpg''" "''d''" "''ab''"]
  by (simp add: exts_def endswith_def os_path_join_def title_def csv_line_def
        os_path_basename_def)

text \<open>
  Claim C10: every run opens the output file for appending and writes the header line
  \<open>name,label\<close> before its rows, so the file afterwards is the old content, the header,
  the rows; a second run on the same file puts a second header after the first run's rows.
\<close>

theorem predictor_appends_header_on_every_run:
  "fst (predict_main w recognise old)
     = old @ title @ rows_written recognise (get_images w)
   \<and> fst (predict_main w2 recognise2 (fst (predict_main w recognise old)))
     = old @ title @ rows_written recognise (get_images w)
           @ title @ rows_written recognise2 (get_images w2)"
  by (simp add: predict_main_def write_rows_content)

theorem predictor_appends_header_on_every_run_witness:
  "fst (predict_main [(''d'', [], [''b.png''])] (\<lambda>p. Inr ''q'')
         (fst (predict_main [(''d'', [], [''a.jpg''])] (\<lambda>p. Inr ''ab'') [])))
     = ''name,label'' @ [CHR 0x0D, CHR 0x0A] @ ''a.jpg,ab'' @ [CHR 0x0D, CHR 0x0A]
       @ ''name,label'' @ [CHR 0x0D, CHR 0x0A] @ ''b.png,q'' @ [CHR 0x0D, CHR 0x0A]"
  using predictor_appends_header_on_every_run
          [of "[(''d'', [], [''a.jpg''])]" "\<lambda>p. Inr ''ab''" "[]"
              "[(''d'', [], [''b.png''])]" "\<lambda>p. Inr ''q''", THEN conjunct2]
  by (simp add: get_images_def exts_def endswith_def os_path_join_def title_def csv_line_def
        os_path_basename_def)

section \<open>Properties of the batch loop\<close>

lemma dom_append_results: "dom (append_results keys d rl) = dom rl"
  unfolding append_results_def
  by (induction d arbitrary: rl) (auto split: option.splits if_splits)

lemma append_results_lookup:
  assumes "distinct (map fst d)" and "rl key = Some xs"
  shows "\<exists>ys. append_results keys d rl key = Some (xs @ ys)
              \<and> length ys = (if key \<in> set keys \<and> key \<in> fst ` set d then 1 else 0)"
  using assms unfolding append_results_def
proof (induction d arbitrary: rl xs)
  case Nil
  then show ?case by simp
next
  case (Cons p d)
  obtain k v where p: "p = (k, v)" by (cases p)
  let ?rl = "(if k \<in> set keys then (case rl k of Some zs \<Rightarrow> rl(k \<mapsto> zs @ [v]) | None \<Rightarrow> rl) else rl)"
  have d: "distinct (map fst d)" and knot: "k \<notin> fst ` set d"
    using Cons.prems(1) p by auto
  show ?case
  proof (cases "key = k")
    case True
    have step: "?rl key = Some (xs @ (if k \<in> set keys then [v] else []))"
      using True Cons.prems(2) by auto
    from Cons.IH[of ?rl "xs @ (if k \<in> set keys then [v] else [])", OF d step] knot True p
    show ?thesis by auto
  next
    case False
    have step: "?rl key = Some xs"
      using False Cons.prems(2) by (auto split: option.splits)
    from Cons.IH[of ?rl xs, OF d step] False p show ?thesis by auto
  qed
qed

lemma run_batches_dom:
  "dom (result_lists (fst (run_batches a env bs s))) = dom (result_lists s)"
  by (induction bs arbitrary: s) (auto split: prod.splits sum.splits simp: dom_append_results)

lemma run_batches_trace:
  "\<exists>k \<le> length bs. trace (fst (run_batches a env bs s)) = trace s @ map RunBatch (take k bs)"
proof (induction bs arbitrary: s)
  case Nil
  then show ?case by simp
next
  case (Cons b bs)
  show ?case
  proof (cases "process_batch a env b (counts s)")
    case (Pair r c)
    show ?thesis
    proof (cases r)
      case (Inl e)
      with Pair show ?thesis by (auto intro: exI[of _ 1])
    next
      case (Inr d)
      let ?s = "s\<lparr>result_lists := append_results (valid_keys a) d (result_lists s),
               counts := c, trace := trace s @ [RunBatch b]\<rparr>"
      from Cons.IH[of ?s] obtain k where "k \<le> length bs"
        "trace (fst (run_batches a env bs ?s)) = trace ?s @ map RunBatch (take k bs)" by blast
      with Pair Inr show ?thesis by (auto intro!: exI[of _ "Suc k"])
    qed
  qed
qed

lemma run_batches_default:
  assumes "batch_processor a = None"
      and "\<forall>b\<in>set bs. sess_run_batch env b = Inl InvalidArgumentError
                      \<or> (\<exists>d. sess_run_batch env b = Inr d \<and> distinct (map fst d))"
  shows "\<exists>s'. run_batches a env bs s = (s', None)
      \<and> success (counts s') = success (counts s) + int (length (filter (\<lambda>b. \<not> isl (sess_run_batch env b)) bs))
      \<and> skipped (counts s') = skipped (counts s) + int (length (filter (\<lambda>b. isl (sess_run_batch env b)) bs))
      \<and> trace s' = trace s @ map RunBatch bs
      \<and> (\<forall>key xs. result_lists s key = Some xs \<longrightarrow>
            (\<exists>ys. result_lists s' key = Some (xs @ ys)
                \<and> length ys = length (filter (\<lambda>b. key \<in> set (valid_keys a) \<and> produces env key b) bs)))"
  using assms(2)
proof (induction bs arbitrary: s)
  case Nil
  then show ?case by simp
next
  case (Cons b bs)
  have rest: "\<forall>b\<in>set bs. sess_run_batch env b = Inl InvalidArgumentError
                      \<or> (\<exists>d. sess_run_batch env b = Inr d \<and> distinct (map fst d))"
    using Cons.prems by simp
  from Cons.prems have "sess_run_batch env b = Inl InvalidArgumentError
                      \<or> (\<exists>d. sess_run_batch env b = Inr d \<and> distinct (map fst d))" by simp
  then show ?case
  proof
    assume inv: "sess_run_batch env b = Inl InvalidArgumentError"
    let ?s = "s\<lparr>result_lists := append_results (valid_keys a) [] (result_lists s),
               counts := (counts s)\<lparr>skipped := skipped (counts s) + 1\<rparr>, trace := trace s @ [RunBatch b]\<rparr>"
    have step: "run_batches a env (b # bs) s = run_batches a env bs ?s"
      using inv assms(1) by (simp add: process_batch_def)
    from Cons.IH[OF rest, of ?s] obtain s' where s': "run_batches a env bs ?s = (s', None)"
      "success (counts s') = success (counts ?s) + int (length (filter (\<lambda>b. \<not> isl (sess_run_batch env b)) bs))"
      "skipped (counts s') = skipped (counts ?s) + int (length (filter (\<lambda>b. isl (sess_run_batch env b)) bs))"
      "trace s' = trace ?s @ map RunBatch bs"
      "\<forall>key xs. result_lists ?s key = Some xs \<longrightarrow>
            (\<exists>ys. result_lists s' key = Some (xs @ ys)
                \<and> length ys = length (filter (\<lambda>b. key \<in> set (valid_keys a) \<and> produces env key b) bs))"
      by blast
    have same: "result_lists ?s = result_lists s" by (simp add: append_results_def)
    show ?thesis
      using step s' inv same by (auto simp: append_results_def)
  next
    assume "\<exists>d. sess_run_batch env b = Inr d \<and> distinct (map fst d)"
    then obtain d where ok: "sess_run_batch env b = Inr d" and dist: "distinct (map fst d)" by blast
    let ?s = "s\<lparr>result_lists := append_results (valid_keys a) d (result_lists s),
               counts := (counts s)\<lparr>success := success (counts s) + 1\<rparr>, trace := trace s @ [RunBatch b]\<rparr>"
    have step: "run_batches a env (b # bs) s = run_batches a env bs ?s"
      using ok assms(1) by (simp add: process_batch_def)
    from Cons.IH[OF rest, of ?s] obtain s' where s': "run_batches a env bs ?s = (s', None)"
      "success (counts s') = success (counts ?s) + int (length (filter (\<lambda>b. \<not> isl (sess_run_batch env b)) bs))"
      "skipped (counts s') = skipped (counts ?s) + int (length (filter (\<lambda>b. isl (sess_run_batch env b)) bs))"
      "trace s' = trace ?s @ map RunBatch bs"
      and lists: "\<forall>key xs. result_lists ?s key = Some xs \<longrightarrow>
            (\<exists>ys. result_lists s' key = Some (xs @ ys)
                \<and> length ys = length (filter (\<lambda>b. key \<in> set (valid_keys a) \<and> produces env key b) bs))"
      by blast
    have "\<exists>ys. result_lists s' key = Some (xs @ ys)
                \<and> length ys = length (filter (\<lambda>b. key \<in> set (valid_keys a) \<and> produces env key b) (b # bs))"
      if "result_lists s key = Some xs" for key xs
    proof -
      from append_results_lookup[where rl="result_lists s" and key=key and keys="valid_keys a", OF dist that] obtain zs where
        zs: "append_results (valid_keys a) d (result_lists s) key = Some (xs @ zs)"
            "length zs = (if key \<in> set (valid_keys a) \<and> key \<in> fst ` set d then 1 else 0)" by blast
      from lists zs(1) obtain ys where ys: "result_lists s' key = Some ((xs @ zs) @ ys)"
        "length ys = length (filter (\<lambda>b. key \<in> set (valid_keys a) \<and> produces env key b) bs)"
        by force
      show ?thesis
        using ys zs(2) ok by (intro exI[of _ "zs @ ys"]) auto
    qed
    then show ?thesis
      using step s'(1-4) ok by auto
  qed
qed


text \<open>
  The loop when the session runs the batches: all batches run, the counters count the
  returned and the rejected ones, and the lists grow by one entry per returned field.
\<close>

lemma batch_loop_on_session_path:
  assumes "batch_processor a = None"
      and "\<forall>b<N. sess_run_batch env b = Inl InvalidArgumentError
                 \<or> (\<exists>d. sess_run_batch env b = Inr d \<and> distinct (map fst d))"
      and "N = nat (num_batches a)"
      and "K = length (filter (\<lambda>b. sess_run_batch env b = Inl InvalidArgumentError) [0..<N])"
      and "s0 = \<lparr>result_lists = init_result_lists (valid_keys a),
                 counts = \<lparr>skipped = 0, success = 0\<rparr>, trace = tr\<rparr>"
  shows "\<exists>s'. run_batches a env [0..<N] s0 = (s', None)
      \<and> success (counts s') = int N - int K
      \<and> skipped (counts s') = int K
      \<and> trace s' = tr @ map RunBatch [0..<N]
      \<and> (\<forall>key\<in>set (valid_keys a).
            \<exists>ys. result_lists s' key = Some ys
               \<and> length ys = length (filter (produces env key) [0..<N]))
      \<and> ((\<forall>b<N. \<forall>d. sess_run_batch env b = Inr d \<longrightarrow> set (valid_keys a) \<subseteq> fst ` set d) \<longrightarrow>
          (\<forall>key\<in>set (valid_keys a).
             \<exists>ys. result_lists s' key = Some ys \<and> length ys = N - K))"
proof -
  let ?bs = "[0..<N]"
  have pre: "\<forall>b\<in>set ?bs. sess_run_batch env b = Inl InvalidArgumentError
                 \<or> (\<exists>d. sess_run_batch env b = Inr d \<and> distinct (map fst d))"
    using assms(2) by simp
  from run_batches_default[OF assms(1) pre, of s0] obtain s' where
    run: "run_batches a env ?bs s0 = (s', None)"
    and succ: "success (counts s') = success (counts s0) + int (length (filter (\<lambda>b. \<not> isl (sess_run_batch env b)) ?bs))"
    and skip: "skipped (counts s') = skipped (counts s0) + int (length (filter (\<lambda>b. isl (sess_run_batch env b)) ?bs))"
    and tr: "trace s' = trace s0 @ map RunBatch ?bs"
    and lists: "\<forall>key xs. result_lists s0 key = Some xs \<longrightarrow>
            (\<exists>ys. result_lists s' key = Some (xs @ ys)
                \<and> length ys = length (filter (\<lambda>b. key \<in> set (valid_keys a) \<and> produces env key b) ?bs))"
    by blast
  have isl_iff: "isl (sess_run_batch env b) \<longleftrightarrow> sess_run_batch env b = Inl InvalidArgumentError"
    if "b \<in> set ?bs" for b
    using pre that by (auto simp: isl_def)
  have K: "length (filter (\<lambda>b. isl (sess_run_batch env b)) ?bs) = K"
    unfolding assms(4) using isl_iff by (intro arg_cong[where f=length] filter_cong) auto
  have "length (filter (\<lambda>b. isl (sess_run_batch env b)) ?bs)
        + length (filter (\<lambda>b. \<not> isl (sess_run_batch env b)) ?bs) = length ?bs"
    by (rule sum_length_filter_compl)
  then have NK: "length (filter (\<lambda>b. \<not> isl (sess_run_batch env b)) ?bs) = N - K"
    using K by simp
  have KN: "K \<le> N" unfolding assms(4) by (metis length_filter_le length_upt diff_zero)
  have lists': "\<exists>ys. result_lists s' key = Some ys
               \<and> length ys = length (filter (produces env key) ?bs)"
    if "key \<in> set (valid_keys a)" for key
  proof -
    have "result_lists s0 key = Some []" using that assms(5) by (simp add: init_result_lists_def)
    with lists that show ?thesis by fastforce
  qed
  have full: "\<exists>ys. result_lists s' key = Some ys \<and> length ys = N - K"
    if cover: "\<forall>b<N. \<forall>d. sess_run_batch env b = Inr d \<longrightarrow> set (valid_keys a) \<subseteq> fst ` set d"
      and key: "key \<in> set (valid_keys a)" for key
  proof -
    have "produces env key b \<longleftrightarrow> \<not> isl (sess_run_batch env b)" if "b \<in> set ?bs" for b
      using cover key that by (cases "sess_run_batch env b") auto
    then have "filter (produces env key) ?bs = filter (\<lambda>b. \<not> isl (sess_run_batch env b)) ?bs"
      by (intro filter_cong) auto
    with lists'[OF key] NK show ?thesis by simp
  qed
  show ?thesis
    using run succ skip tr NK K KN lists' full assms(5) by (intro exI[of _ s']) auto
qed


lemma run_batches_list_lengths:
  assumes "\<forall>d\<in>set (returned_dicts a env bs (counts s)). distinct (map fst d)"
      and "result_lists s key = Some xs"
  shows "\<exists>ys. result_lists (fst (run_batches a env bs s)) key = Some (xs @ ys)
            \<and> length ys = length (filter (\<lambda>d. key \<in> set (valid_keys a) \<and> key \<in> fst ` set d)
                                         (returned_dicts a env bs (counts s)))"
  using assms
proof (induction bs arbitrary: s xs)
  case Nil
  then show ?case by simp
next
  case (Cons b bs)
  obtain r c where pb: "process_batch a env b (counts s) = (r, c)"
    by (cases "process_batch a env b (counts s)") auto
  show ?case
  proof (cases r)
    case (Inl e)
    with pb Cons.prems(2) show ?thesis by simp
  next
    case (Inr d)
    let ?next = "s\<lparr>result_lists := append_results (valid_keys a) d (result_lists s),
                    counts := c, trace := trace s @ [RunBatch b]\<rparr>"
    have ret: "returned_dicts a env (b # bs) (counts s) = d # returned_dicts a env bs c"
      using pb Inr by simp
    have alld: "\<forall>x\<in>set (d # returned_dicts a env bs c). distinct (map fst x)"
      using Cons.prems(1) unfolding ret .
    have dist: "distinct (map fst d)" using alld by simp
    have rest: "\<forall>d\<in>set (returned_dicts a env bs (counts ?next)). distinct (map fst d)"
      using alld by simp
    from append_results_lookup[where rl = "result_lists s" and key = key and keys = "valid_keys a",
                               OF dist Cons.prems(2)]
    obtain zs where zs: "append_results (valid_keys a) d (result_lists s) key = Some (xs @ zs)"
        "length zs = (if key \<in> set (valid_keys a) \<and> key \<in> fst ` set d then 1 else 0)"
      by blast
    have start: "result_lists ?next key = Some (xs @ zs)" using zs(1) by simp
    from Cons.IH[of ?next "xs @ zs", OF rest start]
    obtain ys where ys: "result_lists (fst (run_batches a env bs ?next)) key = Some ((xs @ zs) @ ys)"
        "length ys = length (filter (\<lambda>d. key \<in> set (valid_keys a) \<and> key \<in> fst ` set d)
                                         (returned_dicts a env bs (counts ?next)))"
      by blast
    have run: "run_batches a env (b # bs) s = run_batches a env bs ?next"
      using pb Inr by simp
    show ?thesis
      unfolding run ret using ys zs(2) by (intro exI[of _ "zs @ ys"]) simp
  qed
qed

text \<open>
  Claim C4, as stated: in every pass over \<open>N\<close> batches of which \<open>K\<close> fail with a caught
  error and the others produce every valid field, the pass records \<open>N - K\<close> successes.
  It fails for a pass with a \<open>batch_processor\<close>: the loop then leaves the counters to
  the processor. Three batches, none failing, each with every valid field, and a processor
  that does not touch the counters, leave \<open>success\<close> at 0, not 3.
\<close>

theorem batch_processor_leaves_counters_at_zero:
  "snd (run_batches processor_args example_env [0..<3]
          \<lparr>result_lists = init_result_lists (valid_keys processor_args),
           counts = \<lparr>skipped = 0, success = 0\<rparr>, trace = []\<rparr>) = None
   \<and> counts (fst (run_batches processor_args example_env [0..<3]
          \<lparr>result_lists = init_result_lists (valid_keys processor_args),
           counts = \<lparr>skipped = 0, success = 0\<rparr>, trace = []\<rparr>))
       = \<lparr>skipped = 0, success = 0\<rparr>
   \<and> result_lists (fst (run_batches processor_args example_env [0..<3]
          \<lparr>result_lists = init_result_lists (valid_keys processor_args),
           counts = \<lparr>skipped = 0, success = 0\<rparr>, trace = []\<rparr>)) ''filename''
       = Some [''a'', ''a'', ''a'']"
  by (simp add: upt_rec process_batch_def append_results_def valid_keys_def init_result_lists_def)


text \<open>
  Claim C4, amended: in a pass over \<open>N\<close> batches that the session runs (no
  \<open>batch_processor\<close>), of which \<open>K\<close> are rejected with the caught
  \<open>InvalidArgumentError\<close> and the others return a dictionary, the loop runs all \<open>N\<close>
  batches, counts \<open>N - K\<close> successes and \<open>K\<close> skips, and when every returned dictionary
  has every valid field, every field's list has length \<open>N - K\<close>. In every pass, with or
  without a \<open>batch_processor\<close>, the list of a valid field is as long as the number of
  batches that returned a dictionary with that field.
\<close>

theorem batch_loop_counts_and_list_lengths:
  fixes a :: "('v, 'm) eval_args" and env :: "('v, 'm) tf_env"
  shows
  "(batch_processor a = None
      \<and> (\<forall>b<N. sess_run_batch env b = Inl InvalidArgumentError
                 \<or> (\<exists>d. sess_run_batch env b = Inr d \<and> distinct (map fst d)))
      \<and> N = nat (num_batches a)
      \<and> K = length (filter (\<lambda>b. sess_run_batch env b = Inl InvalidArgumentError) [0..<N])
    \<longrightarrow> (\<exists>s'. run_batches a env [0..<N]
                   \<lparr>result_lists = init_result_lists (valid_keys a),
                    counts = \<lparr>skipped = 0, success = 0\<rparr>, trace = tr\<rparr> = (s', None)
            \<and> success (counts s') = int N - int K
            \<and> skipped (counts s') = int K
            \<and> trace s' = tr @ map RunBatch [0..<N]
            \<and> (\<forall>key\<in>set (valid_keys a).
                  \<exists>ys. result_lists s' key = Some ys
                     \<and> length ys = length (filter (produces env key) [0..<N]))
            \<and> ((\<forall>b<N. \<forall>d. sess_run_batch env b = Inr d
                          \<longrightarrow> set (valid_keys a) \<subseteq> fst ` set d) \<longrightarrow>
                (\<forall>key\<in>set (valid_keys a).
                   \<exists>ys. result_lists s' key = Some ys \<and> length ys = N - K))))
   \<and> ((\<forall>d\<in>set (returned_dicts a env [0..<nat (num_batches a)] \<lparr>skipped = 0, success = 0\<rparr>).
           distinct (map fst d))
        \<and> key \<in> set (valid_keys a)
    \<longrightarrow> (\<exists>ys. result_lists (fst (run_batches a env [0..<nat (num_batches a)]
                    \<lparr>result_lists = init_result_lists (valid_keys a),
                     counts = \<lparr>skipped = 0, success = 0\<rparr>, trace = tr\<rparr>)) key = Some ys
            \<and> length ys
                = length (filter (\<lambda>d. key \<in> fst ` set d)
                            (returned_dicts a env [0..<nat (num_batches a)]
                               \<lparr>skipped = 0, success = 0\<rparr>))))"
proof (intro conjI impI)
  assume h: "batch_processor a = None
      \<and> (\<forall>b<N. sess_run_batch env b = Inl InvalidArgumentError
                 \<or> (\<exists>d. sess_run_batch env b = Inr d \<and> distinct (map fst d)))
      \<and> N = nat (num_batches a)
      \<and> K = length (filter (\<lambda>b. sess_run_batch env b = Inl InvalidArgumentError) [0..<N])"
  from h have h1: "batch_processor a = None" by (elim conjE)
  from h have h2: "\<forall>b<N. sess_run_batch env b = Inl InvalidArgumentError
                 \<or> (\<exists>d. sess_run_batch env b = Inr d \<and> distinct (map fst d))" by (elim conjE)
  from h have h3: "N = nat (num_batches a)" by (elim conjE)
  from h have h4: "K = length (filter (\<lambda>b. sess_run_batch env b = Inl InvalidArgumentError) [0..<N])"
    by (elim conjE)
  show "\<exists>s'. run_batches a env [0..<N]
                   \<lparr>result_lists = init_result_lists (valid_keys a),
                    counts = \<lparr>skipped = 0, success = 0\<rparr>, trace = tr\<rparr> = (s', None)
            \<and> success (counts s') = int N - int K
            \<and> skipped (counts s') = int K
            \<and> trace s' = tr @ map RunBatch [0..<N]
            \<and> (\<forall>key\<in>set (valid_keys a).
                  \<exists>ys. result_lists s' key = Some ys
                     \<and> length ys = length (filter (produces env key) [0..<N]))
            \<and> ((\<forall>b<N. \<forall>d. sess_run_batch env b = Inr d
                          \<longrightarrow> set (valid_keys a) \<subseteq> fst ` set d) \<longrightarrow>
                (\<forall>key\<in>set (valid_keys a).
                   \<exists>ys. result_lists s' key = Some ys \<and> length ys = N - K))"
    by (rule batch_loop_on_session_path[OF h1 h2 h3 h4 refl])
next
  assume h: "(\<forall>d\<in>set (returned_dicts a env [0..<nat (num_batches a)] \<lparr>skipped = 0, success = 0\<rparr>).
           distinct (map fst d))
        \<and> key \<in> set (valid_keys a)"
  let ?init = "\<lparr>result_lists = init_result_lists (valid_keys a),
                counts = \<lparr>skipped = 0, success = 0\<rparr>, trace = tr\<rparr> :: ('v, 'm) loop_state"
  have d: "\<forall>d\<in>set (returned_dicts a env [0..<nat (num_batches a)] (counts ?init)).
             distinct (map fst d)"
    using h by simp
  have k: "result_lists ?init key = Some []"
    using h by (simp add: init_result_lists_def)
  from run_batches_list_lengths[where s = ?init and key = key and xs = "[]", OF d k]
  obtain ys where ys: "result_lists (fst (run_batches a env [0..<nat (num_batches a)] ?init)) key
                         = Some ([] @ ys)"
      "length ys = length (filter (\<lambda>d. key \<in> set (valid_keys a) \<and> key \<in> fst ` set d)
                             (returned_dicts a env [0..<nat (num_batches a)] (counts ?init)))"
    by blast
  have "filter (\<lambda>d. key \<in> set (valid_keys a) \<and> key \<in> fst ` set d)
           (returned_dicts a env [0..<nat (num_batches a)] (counts ?init))
        = filter (\<lambda>d. key \<in> fst ` set d)
           (returned_dicts a env [0..<nat (num_batches a)] \<lparr>skipped = 0, success = 0\<rparr>)"
    using h by simp
  with ys show "\<exists>ys. result_lists (fst (run_batches a env [0..<nat (num_batches a)] ?init)) key = Some ys
            \<and> length ys
                = length (filter (\<lambda>d. key \<in> fst ` set d)
                            (returned_dicts a env [0..<nat (num_batches a)]
                               \<lparr>skipped = 0, success = 0\<rparr>))"
    by (intro exI[of _ ys]) simp
qed

theorem batch_loop_counts_and_list_lengths_witness:
  "batch_processor example_args = None
   \<and> sess_run_batch example_env 0 = Inr [(''filename'', ''a''), (''image'', ''x'')]
   \<and> sess_run_batch example_env 1 = Inl InvalidArgumentError
   \<and> sess_run_batch example_env 2 = Inr [(''filename'', ''a''), (''image'', ''x'')]
   \<and> valid_keys example_args = [''filename'']
   \<and> (\<exists>s'. run_batches example_args example_env [0..<3]
              \<lparr>result_lists = init_result_lists (valid_keys example_args),
               counts = \<lparr>skipped = 0, success = 0\<rparr>, trace = []\<rparr> = (s', None)
          \<and> success (counts s') = 2 \<and> skipped (counts s') = 1
          \<and> trace s' = [RunBatch 0, RunBatch 1, RunBatch 2]
          \<and> (\<exists>ys. result_lists s' ''filename'' = Some ys \<and> length ys = 2))
   \<and> returned_dicts processor_args example_env [0..<3] \<lparr>skipped = 0, success = 0\<rparr>
       = [[(''filename'', ''a''), (''image'', ''x'')], [(''filename'', ''a''), (''image'', ''x'')],
          [(''filename'', ''a''), (''image'', ''x'')]]
   \<and> (\<exists>ys. result_lists (fst (run_batches processor_args example_env [0..<3]
              \<lparr>result_lists = init_result_lists (valid_keys processor_args),
               counts = \<lparr>skipped = 0, success = 0\<rparr>, trace = []\<rparr>)) ''filename'' = Some ys
          \<and> length ys = 3)"
proof -
  have h1: "batch_processor example_args = None" by simp
  have h2: "\<forall>b<3. sess_run_batch example_env b = Inl InvalidArgumentError
            \<or> (\<exists>d. sess_run_batch example_env b = Inr d \<and> distinct (map fst d))" by simp
  have h3: "(3::nat) = nat (num_batches example_args)" by simp
  have h4: "(1::nat) = length (filter (\<lambda>b. sess_run_batch example_env b = Inl InvalidArgumentError) [0..<3])"
    by (simp add: upt_rec)
  have h5: "\<forall>b<3. \<forall>d. sess_run_batch example_env b = Inr d
            \<longrightarrow> set (valid_keys example_args) \<subseteq> fst ` set d"
    by (simp add: valid_keys_def)
  have key: "''filename'' \<in> set (valid_keys example_args)" by (simp add: valid_keys_def)
  note first = batch_loop_counts_and_list_lengths
      [where a = example_args and env = example_env and N = 3 and K = 1 and tr = "[]",
       THEN conjunct1, rule_format, OF conjI[OF h1 conjI[OF h2 conjI[OF h3 h4]]]]
  from first h5 key
  have part1: "\<exists>s'. run_batches example_args example_env [0..<3]
              \<lparr>result_lists = init_result_lists (valid_keys example_args),
               counts = \<lparr>skipped = 0, success = 0\<rparr>, trace = []\<rparr> = (s', None)
          \<and> success (counts s') = 2 \<and> skipped (counts s') = 1
          \<and> trace s' = [RunBatch 0, RunBatch 1, RunBatch 2]
          \<and> (\<exists>ys. result_lists s' ''filename'' = Some ys \<and> length ys = 2)"
    by (auto simp: upt_rec numeral_eq_Suc)
  have ret: "returned_dicts processor_args example_env [0..<3] \<lparr>skipped = 0, success = 0\<rparr>
       = [[(''filename'', ''a''), (''image'', ''x'')], [(''filename'', ''a''), (''image'', ''x'')],
          [(''filename'', ''a''), (''image'', ''x'')]]"
    by (simp add: upt_rec process_batch_def)
  have g1: "\<forall>d\<in>set (returned_dicts processor_args example_env
                        [0..<nat (num_batches processor_args)] \<lparr>skipped = 0, success = 0\<rparr>).
              distinct (map fst d)"
    using ret by simp
  have g2: "''filename'' \<in> set (valid_keys processor_args)" by (simp add: valid_keys_def)
  note second = batch_loop_counts_and_list_lengths
      [where a = processor_args and env = example_env and key = "''filename''" and tr = "[]",
       THEN conjunct2, rule_format, OF conjI[OF g1 g2]]
  from second ret
  have part2: "\<exists>ys. result_lists (fst (run_batches processor_args example_env [0..<3]
              \<lparr>result_lists = init_result_lists (valid_keys processor_args),
               counts = \<lparr>skipped = 0, success = 0\<rparr>, trace = []\<rparr>)) ''filename'' = Some ys
          \<and> length ys = 3"
    by (simp add: numeral_3_eq_3)
  have v: "valid_keys example_args = [''filename'']" by (simp add: valid_keys_def)
  have b0: "sess_run_batch example_env 0 = Inr [(''filename'', ''a''), (''image'', ''x'')]" by simp
  have b1: "sess_run_batch example_env 1 = Inl InvalidArgumentError" by simp
  have b2: "sess_run_batch example_env 2 = Inr [(''filename'', ''a''), (''image'', ''x'')]" by simp
  show ?thesis
    by (intro conjI h1 b0 b1 b2 v part1 ret part2)
qed

section \<open>Properties of one evaluation pass\<close>

lemma restore_variables_events: "set (fst (restore_variables a env)) \<subseteq> setup_events"
  by (auto simp: restore_variables_def Let_def split: option.splits list.splits)

lemma write_metrics_events: "e \<in> set (write_metrics metrics g d) \<Longrightarrow> e \<in> write_events"
  by (auto simp: write_metrics_def)

lemma finally_block_events: "set (fst (finally_block a env rl om)) \<subseteq> write_events"
  by (auto simp: finally_block_def Let_def split: option.splits sum.splits
           dest!: write_metrics_events)

lemma finally_block_raises_no_events:
  "snd (finally_block a env rl om) = Some e \<Longrightarrow> fst (finally_block a env rl om) = []"
  by (auto simp: finally_block_def Let_def split: option.splits sum.splits)

lemma try_body_trace:
  "\<exists>extra. trace (fst (try_body a env s)) = trace s @ extra \<and> set extra \<subseteq> batch_events"
proof -
  obtain k where k: "trace (fst (run_batches a env [0..<nat (num_batches a)] s))
                   = trace s @ map RunBatch (take k [0..<nat (num_batches a)])"
    using run_batches_trace by blast
  show ?thesis
  proof (cases "run_batches a env [0..<nat (num_batches a)] s")
    case (Pair s' r)
    with k have tr: "trace s' = trace s @ map RunBatch (take k [0..<nat (num_batches a)])" by simp
    show ?thesis
      using Pair tr
      by (auto simp: try_body_def split: option.splits sum.splits)
  qed
qed

lemma try_body_dom:
  "dom (result_lists (fst (try_body a env s))) = dom (result_lists s)"
proof (cases "run_batches a env [0..<nat (num_batches a)] s")
  case (Pair s' r)
  then have "dom (result_lists s') = dom (result_lists s)"
    using run_batches_dom[of a env "[0..<nat (num_batches a)]" s] by simp
  then show ?thesis
    using Pair by (simp add: try_body_def split: option.splits sum.splits)
qed

lemma run_checkpoint_once_cases:
  fixes a :: "('v, 'm) eval_args" and env :: "('v, 'm) tf_env"
  obtains (raised_in_setup) tr e where "run_checkpoint_once a env = (tr, Some e)"
      and "set tr \<subseteq> setup_events"
      and "save_graph a \<and> save_graph_dir a = [] \<or> snd (restore_variables a env) = Some e"
    | (entered) pre s1 om raised extra r where
        "\<not> (save_graph a \<and> save_graph_dir a = [])" and "snd (restore_variables a env) = None"
      and "pre = [NewSession (master a), RunInitializers] @ fst (restore_variables a env)
                 @ (if save_graph a then [WriteGraph (save_graph_dir a)] else [])"
      and "try_body a env \<lparr>result_lists = init_result_lists (valid_keys a),
                            counts = \<lparr>skipped = 0, success = 0\<rparr>,
                            trace = pre @ [QueueRunnersEnter]\<rparr> = (s1, om, raised)"
      and "trace s1 = pre @ [QueueRunnersEnter] @ extra" and "set extra \<subseteq> batch_events"
      and "dom (result_lists s1) = set (valid_keys a)"
      and "r = (case snd (finally_block a env (result_lists s1) om) of
                  Some e \<Rightarrow> Some e
                | None \<Rightarrow> if raised = Some OutOfRangeError then None else raised)"
      and "run_checkpoint_once a env
           = (trace s1 @ fst (finally_block a env (result_lists s1) om) @ [QueueRunnersExit]
              @ (if r = None then [SessionClose] else []), r)"
proof (cases "save_graph a \<and> save_graph_dir a = []")
  case True
  then have "run_checkpoint_once a env = ([], Some (ValueError ''`save_graph_dir` must be defined.''))"
    by (simp add: run_checkpoint_once_def)
  then show ?thesis using raised_in_setup[of "[]"] True by simp
next
  case False
  obtain tr1 r1 where rv: "restore_variables a env = (tr1, r1)" by (cases "restore_variables a env") auto
  have tr1: "set tr1 \<subseteq> setup_events" using restore_variables_events[of a env] rv by simp
  show ?thesis
  proof (cases r1)
    case (Some e)
    then have run: "run_checkpoint_once a env = ([NewSession (master a), RunInitializers] @ tr1, Some e)"
      using False rv by (simp add: run_checkpoint_once_def)
    have sub: "set ([NewSession (master a), RunInitializers] @ tr1) \<subseteq> setup_events"
      using tr1 by auto
    have "snd (restore_variables a env) = Some e" using rv Some by simp
    then show ?thesis using raised_in_setup[OF run sub] by blast
  next
    case None
    let ?tr2 = "([NewSession (master a), RunInitializers] @ tr1
                        @ (if save_graph a then [WriteGraph (save_graph_dir a)] else []))
                :: 'm event list"
    let ?init = "\<lparr>result_lists = init_result_lists (valid_keys a),
                        counts = \<lparr>skipped = 0, success = 0\<rparr>,
                        trace = ?tr2\<rparr> :: ('v, 'm) loop_state"
    let ?start = "\<lparr>result_lists = init_result_lists (valid_keys a),
                        counts = \<lparr>skipped = 0, success = 0\<rparr>,
                        trace = ?tr2 @ [QueueRunnersEnter]\<rparr> :: ('v, 'm) loop_state"
    have s_eq: "?init\<lparr>trace := trace ?init @ [QueueRunnersEnter]\<rparr> = ?start" by simp
    obtain s1 om raised where tb: "try_body a env ?start = (s1, om, raised)"
      by (cases "try_body a env ?start") auto
    obtain extra where ex: "trace s1 = trace ?start @ extra" "set extra \<subseteq> batch_events"
      using try_body_trace[of a env ?start] tb by auto
    have dom1: "dom (result_lists s1) = set (valid_keys a)"
      using try_body_dom[of a env ?start] tb by (auto simp: init_result_lists_def dom_def)
    let ?fb = "finally_block a env (result_lists s1) om"
    let ?r = "(case snd ?fb of Some e \<Rightarrow> Some e
                | None \<Rightarrow> if raised = Some OutOfRangeError then None else raised)"
    have wq: "with_queue_runners a env ?init = (trace s1 @ fst ?fb @ [QueueRunnersExit], ?r)"
      unfolding with_queue_runners_def s_eq tb
      by (cases ?fb) (auto simp: Let_def split: option.splits)
    have "run_checkpoint_once a env
           = (trace s1 @ fst ?fb @ [QueueRunnersExit] @ (if ?r = None then [SessionClose] else []), ?r)"
      using False rv None wq
      by (cases ?r) (simp_all add: run_checkpoint_once_def Let_def)
    moreover have "set ?tr2 \<subseteq> setup_events" using tr1 by auto
    ultimately show ?thesis
      using entered[of ?tr2 s1 om raised extra ?r] False rv None tb ex dom1 by simp
  qed
qed

text \<open>
  Claim C1, as stated: every pass releases the session and the queue runners, even when
  the aggregation function raises. It fails for the session: \<open>sess.close()\<close> comes after
  the \<open>with\<close> block, so when the aggregation function raises (here
  \<open>evaluate_recognition_results\<close>, because \<open>groundtruth_text\<close> is not a result field)
  the pass ends with the exit of the queue runners and the session is not closed.
\<close>

theorem session_left_open_when_aggregation_raises:
  "run_checkpoint_once
     (example_args\<lparr>aggregated_result_processor :=
                     Some (evaluate_recognition_results (\<lambda>infos. Inr []))\<rparr>)
     example_env
   = ([NewSession [], RunInitializers, SaverRestore (Some ''ckpt/model-1''), QueueRunnersEnter,
       RunBatch 0, RunBatch 1, RunBatch 2, QueueRunnersExit],
      Some (ValueError ''result_lists does not have expected key set.''))"
  by (simp add: run_checkpoint_once_def restore_variables_def with_queue_runners_def try_body_def
    finally_block_def valid_keys_def init_result_lists_def process_batch_def
    append_results_def evaluate_recognition_results_def expected_keys_def upt_rec)

text \<open>
  Claim C1, amended: a pass that has entered the queue-runner context leaves it on every
  path, also when the aggregation function raises; the session is closed exactly when the
  pass returns without an exception.
\<close>

theorem queue_runners_always_exited_session_closed_on_return:
  "(QueueRunnersEnter \<in> set (fst (run_checkpoint_once a env))
      \<longrightarrow> QueueRunnersExit \<in> set (fst (run_checkpoint_once a env)))
   \<and> (SessionClose \<in> set (fst (run_checkpoint_once a env))
      \<longleftrightarrow> snd (run_checkpoint_once a env) = None)"
proof (cases rule: run_checkpoint_once_cases[of a env])
  case (raised_in_setup tr e)
  then show ?thesis by auto
next
  case (entered pre s1 om raised extra r)
  have pre: "set pre \<subseteq> setup_events"
    using restore_variables_events[of a env] entered(3) by auto
  have fb: "set (fst (finally_block a env (result_lists s1) om)) \<subseteq> write_events"
    by (rule finally_block_events)
  have "SessionClose \<notin> set (trace s1 @ fst (finally_block a env (result_lists s1) om))"
    using pre fb entered(5,6) by auto
  then show ?thesis using entered(9) by auto
qed

theorem queue_runners_always_exited_session_closed_on_return_witness:
  "QueueRunnersEnter \<in> set (fst (run_checkpoint_once
       (example_args\<lparr>aggregated_result_processor := Some (\<lambda>rl. Inl (OtherError ''aggregation''))\<rparr>)
       example_env))
   \<and> QueueRunnersExit \<in> set (fst (run_checkpoint_once
       (example_args\<lparr>aggregated_result_processor := Some (\<lambda>rl. Inl (OtherError ''aggregation''))\<rparr>)
       example_env))
   \<and> SessionClose \<notin> set (fst (run_checkpoint_once
       (example_args\<lparr>aggregated_result_processor := Some (\<lambda>rl. Inl (OtherError ''aggregation''))\<rparr>)
       example_env))
   \<and> snd (run_checkpoint_once
       (example_args\<lparr>aggregated_result_processor := Some (\<lambda>rl. Inl (OtherError ''aggregation''))\<rparr>)
       example_env) = Some (OtherError ''aggregation'')"
proof -
  have run: "run_checkpoint_once
       (example_args\<lparr>aggregated_result_processor := Some (\<lambda>rl. Inl (OtherError ''aggregation''))\<rparr>)
       example_env
     = ([NewSession [], RunInitializers, SaverRestore (Some ''ckpt/model-1''), QueueRunnersEnter,
       RunBatch 0, RunBatch 1, RunBatch 2, QueueRunnersExit], Some (OtherError ''aggregation''))"
    by (simp add: run_checkpoint_once_def restore_variables_def with_queue_runners_def try_body_def
      finally_block_def valid_keys_def init_result_lists_def process_batch_def
      append_results_def upt_rec)
  show ?thesis
    using queue_runners_always_exited_session_closed_on_return
            [of "example_args\<lparr>aggregated_result_processor := Some (\<lambda>rl. Inl (OtherError ''aggregation''))\<rparr>"
                example_env] run
    by simp
qed


text \<open>
  Claim C3, as stated: with no checkpoint directory and no \<open>restore_fn\<close> the pass fails
  with a value error before any session set-up. It fails in \<open>run_checkpoint_once\<close>: the
  check comes after the session has been created and the initialisers have run.
\<close>

theorem session_created_before_checkpoint_dirs_check:
  "run_checkpoint_once (example_args\<lparr>checkpoint_dirs := None\<rparr>) example_env
   = ([NewSession [], RunInitializers],
      Some (ValueError ''`checkpoint_dirs` must have at least one entry.''))"
  by (simp add: run_checkpoint_once_def restore_variables_def)

text \<open>
  Claim C3, amended: when \<open>checkpoint_dirs\<close> is unset or empty, \<open>run_checkpoint_once\<close>
  without a \<open>restore_fn\<close> raises a \<open>ValueError\<close> before it restores anything, enters the
  queue runners or runs a batch, and by then it has created the session and run the
  initialisers (unless the check of \<open>save_graph_dir\<close> raised first, before the session);
  \<open>repeated_checkpoint_run\<close> raises a \<open>ValueError\<close> before any pass and any session.
\<close>

theorem missing_checkpoint_dirs_raise_value_error:
  assumes "checkpoint_dirs a = None \<or> checkpoint_dirs a = Some []"
  shows "(restore_fn a = None \<longrightarrow>
            (\<exists>msg. snd (run_checkpoint_once a env) = Some (ValueError msg))
          \<and> fst (run_checkpoint_once a env)
              = (if save_graph a \<and> save_graph_dir a = [] then []
                 else [NewSession (master a), RunInitializers]))
       \<and> (\<exists>msg. repeated_checkpoint_run a eval_interval_secs max_number_of_evaluations w
                  = Some (initial_poll_state w, Some (ValueError msg)))
       \<and> events (initial_poll_state w) = []"
  using assms
  by (auto simp: run_checkpoint_once_def restore_variables_def repeated_checkpoint_run_def
        initial_poll_state_def)

theorem missing_checkpoint_dirs_raise_value_error_witness:
  "(checkpoint_dirs (example_args\<lparr>checkpoint_dirs := Some []\<rparr>) = None
      \<or> checkpoint_dirs (example_args\<lparr>checkpoint_dirs := Some []\<rparr>) = Some [])
   \<and> restore_fn (example_args\<lparr>checkpoint_dirs := Some []\<rparr>) = None
   \<and> run_checkpoint_once (example_args\<lparr>checkpoint_dirs := Some []\<rparr>) example_env
       = ([NewSession [], RunInitializers],
          Some (ValueError ''`checkpoint_dirs` must have at least one entry.''))
   \<and> repeated_checkpoint_run (example_args\<lparr>checkpoint_dirs := Some []\<rparr>) 120 (Some 5)
         \<lparr>tf_at = (\<lambda>i. example_env), time_spent = (\<lambda>i. 30), start_time = 0\<rparr>
       = Some (\<lparr>last_evaluated_model_path = None, number_of_evaluations = 0, clock = 0,
                 events = []\<rparr>,
               Some (ValueError ''`checkpoint_dirs` must have at least one entry.''))"
  using missing_checkpoint_dirs_raise_value_error
          [of "example_args\<lparr>checkpoint_dirs := Some []\<rparr>" example_env 120 "Some 5"
              "\<lparr>tf_at = (\<lambda>i. example_env), time_spent = (\<lambda>i. 30), start_time = 0\<rparr>"]
  by (simp add: run_checkpoint_once_def restore_variables_def repeated_checkpoint_run_def
        initial_poll_state_def truthy_def)

lemma evaluate_recognition_results_missing:
  "list_ex (\<lambda>key. rl key = None) expected_keys \<Longrightarrow>
   evaluate_recognition_results ev rl
     = Inl (ValueError ''result_lists does not have expected key set.'')"
  by (auto simp: evaluate_recognition_results_def expected_keys_def)

lemma evaluate_recognition_results_unequal:
  assumes "\<not> list_ex (\<lambda>key. rl key = None) expected_keys"
      and "list_ex (\<lambda>k1. list_ex (\<lambda>k2. length (the (rl k1)) \<noteq> length (the (rl k2))) expected_keys)
             expected_keys"
  shows "evaluate_recognition_results ev rl = Inl (ValueError ''Inconsistent list sizes in result_lists'')"
  using assms by (auto simp: evaluate_recognition_results_def expected_keys_def)

text \<open>
  Claim C6: for every result-list mapping that lacks one of the fields
  \<open>groundtruth_text\<close>, \<open>recognition_text\<close>, \<open>filename\<close>, or in which the lists of these
  fields are not all of one length, \<open>evaluate_recognition_results\<close> raises a \<open>ValueError\<close>,
  and it does so before any metric is written: the \<open>finally\<close> block that calls it then
  writes nothing, and a pass whose result fields lack a required field writes no summary
  and raises.
\<close>

theorem recognition_aggregation_raises_before_writing:
  fixes a :: "('v, 'm) eval_args" and env :: "('v, 'm) tf_env"
  shows
  "(list_ex (\<lambda>key. rl key = None) expected_keys
      \<or> list_ex (\<lambda>k1. list_ex (\<lambda>k2. length (the (rl k1)) \<noteq> length (the (rl k2)))
                          expected_keys) expected_keys
    \<longrightarrow> (\<exists>msg. evaluate_recognition_results ev rl = Inl (ValueError msg)
           \<and> (aggregated_result_processor a = Some (evaluate_recognition_results ev) \<longrightarrow>
                finally_block a env rl other_metrics = ([], Some (ValueError msg)))))
   \<and> (aggregated_result_processor a = Some (evaluate_recognition_results ev)
        \<and> \<not> set expected_keys \<subseteq> set (valid_keys a)
      \<longrightarrow> set (fst (run_checkpoint_once a env)) \<inter> write_events = {}
          \<and> (\<exists>e. snd (run_checkpoint_once a env) = Some e))"
proof (intro conjI impI)
  assume bad: "list_ex (\<lambda>key. rl key = None) expected_keys
      \<or> list_ex (\<lambda>k1. list_ex (\<lambda>k2. length (the (rl k1)) \<noteq> length (the (rl k2)))
                          expected_keys) expected_keys"
  show "\<exists>msg. evaluate_recognition_results ev rl = Inl (ValueError msg)
           \<and> (aggregated_result_processor a = Some (evaluate_recognition_results ev) \<longrightarrow>
                finally_block a env rl other_metrics = ([], Some (ValueError msg)))"
  proof (cases "list_ex (\<lambda>key. rl key = None) expected_keys")
    case True
    from evaluate_recognition_results_missing[OF True, of ev]
    show ?thesis by (auto simp: finally_block_def)
  next
    case False
    with bad evaluate_recognition_results_unequal[OF False, of ev]
    show ?thesis by (auto simp: finally_block_def)
  qed
next
  assume h: "aggregated_result_processor a = Some (evaluate_recognition_results ev)
        \<and> \<not> set expected_keys \<subseteq> set (valid_keys a)"
  have both: "set (fst (run_checkpoint_once a env)) \<inter> write_events = {}
        \<and> (\<exists>e. snd (run_checkpoint_once a env) = Some e)"
  proof (cases rule: run_checkpoint_once_cases[of a env])
    case (raised_in_setup tr e)
    then show ?thesis by auto
  next
    case (entered pre s1 om raised extra r)
    have "list_ex (\<lambda>key. result_lists s1 key = None) expected_keys"
      using h entered(7) by (auto simp: list_ex_iff dom_def)
    then have agg: "evaluate_recognition_results ev (result_lists s1)
        = Inl (ValueError ''result_lists does not have expected key set.'')"
      by (rule evaluate_recognition_results_missing)
    have fb: "finally_block a env (result_lists s1) om
        = ([], Some (ValueError ''result_lists does not have expected key set.''))"
      using h agg by (simp add: finally_block_def)
    have pre: "set pre \<subseteq> setup_events"
      using restore_variables_events[of a env] entered(3) by auto
    have run: "run_checkpoint_once a env
        = (pre @ [QueueRunnersEnter] @ extra @ [QueueRunnersExit],
           Some (ValueError ''result_lists does not have expected key set.''))"
      using entered(5,8,9) fb by simp
    show ?thesis
      unfolding run using pre entered(6) by auto
  qed
  from both show "set (fst (run_checkpoint_once a env)) \<inter> write_events = {}" ..
  from both show "\<exists>e. snd (run_checkpoint_once a env) = Some e" ..
qed

theorem recognition_aggregation_raises_before_writing_witness:
  "list_ex (\<lambda>key. [''groundtruth_text'' \<mapsto> [''cat''], ''recognition_text'' \<mapsto> [''cat'']] key = None)
      expected_keys
   \<and> (\<exists>msg. evaluate_recognition_results (\<lambda>infos. Inr [(''accuracy'', 1::int)])
               [''groundtruth_text'' \<mapsto> [''cat''], ''recognition_text'' \<mapsto> [''cat'']]
             = Inl (ValueError msg)
           \<and> finally_block recognition_args example_env
               [''groundtruth_text'' \<mapsto> [''cat''], ''recognition_text'' \<mapsto> [''cat'']] None
             = ([], Some (ValueError msg)))
   \<and> \<not> set expected_keys \<subseteq> set (valid_keys recognition_args)
   \<and> set (fst (run_checkpoint_once recognition_args example_env)) \<inter> write_events = {}
   \<and> (\<exists>e. snd (run_checkpoint_once recognition_args example_env) = Some e)"
proof -
  let ?rl = "[''groundtruth_text'' \<mapsto> [''cat''], ''recognition_text'' \<mapsto> [''cat'']]
             :: string \<rightharpoonup> string list"
  have miss: "list_ex (\<lambda>key. ?rl key = None) expected_keys"
    by (simp add: expected_keys_def)
  have keys: "\<not> set expected_keys \<subseteq> set (valid_keys recognition_args)"
    by (simp add: expected_keys_def valid_keys_def)
  have agg: "aggregated_result_processor recognition_args
        = Some (evaluate_recognition_results (\<lambda>infos. Inr [(''accuracy'', 1)]))"
    by simp
  note inst = recognition_aggregation_raises_before_writing
      [of ?rl "\<lambda>infos. Inr [(''accuracy'', 1)]" recognition_args example_env None]
  from inst[THEN conjunct1, rule_format, OF disjI1[OF miss]]
  obtain msg where m1: "evaluate_recognition_results (\<lambda>infos. Inr [(''accuracy'', 1::int)]) ?rl
             = Inl (ValueError msg)"
    and m2: "aggregated_result_processor recognition_args
               = Some (evaluate_recognition_results (\<lambda>infos. Inr [(''accuracy'', 1)]))
             \<longrightarrow> finally_block recognition_args example_env ?rl None = ([], Some (ValueError msg))"
    by (elim exE conjE)
  from m2[rule_format, OF agg] have m3:
    "finally_block recognition_args example_env ?rl None = ([], Some (ValueError msg))" .
  have first: "\<exists>msg. evaluate_recognition_results (\<lambda>infos. Inr [(''accuracy'', 1::int)]) ?rl
             = Inl (ValueError msg)
           \<and> finally_block recognition_args example_env ?rl None = ([], Some (ValueError msg))"
    using m1 m3 by (intro exI[of _ msg] conjI)
  note second = inst[THEN conjunct2, rule_format, OF conjI[OF agg keys]]
  show ?thesis
    by (intro conjI miss first keys second[THEN conjunct1] second[THEN conjunct2])
qed





section \<open>Properties of the polling loop\<close>

lemma filter_enter_empty:
  "set xs \<subseteq> setup_events \<union> batch_events \<union> write_events \<Longrightarrow> filter (\<lambda>e. e = QueueRunnersEnter) xs = []"
  by (auto simp: filter_empty_conv)

lemma pass_enters_at_most_once:
  fixes a :: "('v, 'm) eval_args" and env :: "('v, 'm) tf_env"
  shows "passes_entered (fst (run_checkpoint_once a env)) \<le> 1"
proof (cases rule: run_checkpoint_once_cases[of a env])
  case (raised_in_setup tr e)
  then have "filter (\<lambda>e. e = QueueRunnersEnter) tr = []"
    by (intro filter_enter_empty) auto
  with raised_in_setup(1) show ?thesis by simp
next
  case (entered pre s1 om raised extra r)
  have pre: "set pre \<subseteq> setup_events"
    using restore_variables_events[of a env] entered(3) by auto
  have f1: "filter (\<lambda>e. e = QueueRunnersEnter) pre = []"
    using pre by (intro filter_enter_empty) auto
  have f2: "filter (\<lambda>e. e = QueueRunnersEnter) extra = []"
    using entered(6) by (intro filter_enter_empty) auto
  have f3: "filter (\<lambda>e. e = QueueRunnersEnter) (fst (finally_block a env (result_lists s1) om)) = []"
    using finally_block_events[of a env "result_lists s1" om] by (intro filter_enter_empty) auto
  show ?thesis
    unfolding entered(9) by (simp add: entered(5) f1 f2 f3)
qed

lemma poll_iteration_events:
  fixes a :: "('v, 'm) eval_args" and w :: "('v, 'm) world"
  assumes "poll_iteration a iv m w d s = (s', r)"
      and "i = number_of_evaluations s"
      and "model_path = latest_checkpoint (tf_at w i) d"
      and "skip \<longleftrightarrow> model_path = None \<or> model_path = Some [] \<or> model_path = last_evaluated_model_path s"
      and "pe = (if skip then [] else fst (run_checkpoint_once a (tf_at w i)))"
      and "raised = (if skip then None else snd (run_checkpoint_once a (tf_at w i)))"
      and "t = iv - time_spent w i"
  shows "last_evaluated_model_path s' = (if skip then last_evaluated_model_path s else model_path)"
    and "r = (case raised of Some e \<Rightarrow> Raised e
              | None \<Rightarrow> if truthy m \<and> the m \<le> int (Suc i) then Finished else Continue)"
    and "events s' = events s @ pe @ (if r = Continue \<and> 0 < t then [Sleep t] else [])"
    and "number_of_evaluations s' = (if raised = None then Suc i else i)"
    and "clock s' = clock s + time_spent w i + (if r = Continue \<and> 0 < t then t else 0)"
proof -
  obtain tr rr where run: "run_checkpoint_once a (tf_at w i) = (tr, rr)"
    by (cases "run_checkpoint_once a (tf_at w i)") auto
  have t: "clock s + iv - (clock s + time_spent w i) = t" using assms(7) by simp
  note defs = poll_iteration_def Let_def
  show "last_evaluated_model_path s' = (if skip then last_evaluated_model_path s else model_path)"
    using assms(1) unfolding assms(2-7) defs
    by (auto split: if_splits option.splits prod.splits)
  show "r = (case raised of Some e \<Rightarrow> Raised e
              | None \<Rightarrow> if truthy m \<and> the m \<le> int (Suc i) then Finished else Continue)"
    using assms(1) unfolding assms(2-7) defs
    by (auto split: if_splits option.splits prod.splits)
  show "events s' = events s @ pe @ (if r = Continue \<and> 0 < t then [Sleep t] else [])"
    using assms(1) unfolding assms(2-7) defs
    by (auto split: if_splits option.splits prod.splits)
  show "number_of_evaluations s' = (if raised = None then Suc i else i)"
    using assms(1) unfolding assms(2-7) defs
    by (auto split: if_splits option.splits prod.splits)
  show "clock s' = clock s + time_spent w i + (if r = Continue \<and> 0 < t then t else 0)"
    using assms(1) unfolding assms(2-7) defs
    by (auto split: if_splits option.splits prod.splits)
qed


lemma poll_iteration_no_raise:
  fixes a :: "('v, 'm) eval_args" and w :: "('v, 'm) world"
  assumes "\<forall>i. snd (run_checkpoint_once a (tf_at w i)) = None"
  obtains s' where
    "poll_iteration a iv m w d s
       = (s', if truthy m \<and> the m \<le> int (Suc (number_of_evaluations s)) then Finished else Continue)"
    and "number_of_evaluations s' = Suc (number_of_evaluations s)"
    and "passes_entered (events s') \<le> passes_entered (events s) + 1"
proof -
  obtain s' r where it: "poll_iteration a iv m w d s = (s', r)"
    by (cases "poll_iteration a iv m w d s") auto
  note ev = poll_iteration_events[OF it refl refl refl refl refl refl]
  have r: "r = (if truthy m \<and> the m \<le> int (Suc (number_of_evaluations s)) then Finished else Continue)"
    using ev(2) assms by (simp split: if_splits)
  have n: "number_of_evaluations s' = Suc (number_of_evaluations s)"
    using ev(4) assms by (simp split: if_splits)
  have "passes_entered (events s') \<le> passes_entered (events s) + 1"
    unfolding ev(3)
    using pass_enters_at_most_once[of a "tf_at w (number_of_evaluations s)"]
    by (simp split: if_splits)
  with it r n that show ?thesis by blast
qed

lemma polling_loop_never_returns:
  fixes a :: "('v, 'm) eval_args" and w :: "('v, 'm) world"
  assumes noraise: "\<forall>i. snd (run_checkpoint_once a (tf_at w i)) = None"
      and falsy: "\<not> truthy m"
  shows "polling_loop a iv m w d s = None"
proof (rule ccontr)
  assume "polling_loop a iv m w d s \<noteq> None"
  then obtain y where y: "polling_loop a iv m w d s = Some y" by auto
  have "\<not> ((\<forall>i. snd (run_checkpoint_once a (tf_at w i)) = None) \<and> \<not> truthy m)"
  proof (rule polling_loop.raw_induct
      [where P = "\<lambda>a iv m w d s y.
                    \<not> ((\<forall>i. snd (run_checkpoint_once a (tf_at w i)) = None) \<and> \<not> truthy m)",
       OF _ y])
    fix loop :: "('v, 'm) eval_args \<Rightarrow> real \<Rightarrow> int option \<Rightarrow> ('v, 'm) world \<Rightarrow> string
                 \<Rightarrow> 'm poll_state \<Rightarrow> ('m poll_state \<times> error option) option"
    fix a :: "('v, 'm) eval_args" and iv m and w :: "('v, 'm) world" and d s y
    assume IH: "\<And>a iv m w d s y. loop a iv m w d s = Some y \<Longrightarrow>
                 \<not> ((\<forall>i. snd (run_checkpoint_once a (tf_at w i)) = None) \<and> \<not> truthy m)"
      and step: "(case poll_iteration a iv m w d s of
                    (s', Raised e) \<Rightarrow> Some (s', Some e)
                  | (s', Finished) \<Rightarrow> Some (s', None)
                  | (s', Continue) \<Rightarrow> loop a iv m w d s') = Some y"
    show "\<not> ((\<forall>i. snd (run_checkpoint_once a (tf_at w i)) = None) \<and> \<not> truthy m)"
    proof
      assume h: "(\<forall>i. snd (run_checkpoint_once a (tf_at w i)) = None) \<and> \<not> truthy m"
      then obtain s1 where it: "poll_iteration a iv m w d s = (s1, Continue)"
        using poll_iteration_no_raise[of a w iv m d s] by auto
      from step it have "loop a iv m w d s1 = Some y" by simp
      from IH[OF this] h show False by blast
    qed
  qed
  with noraise falsy show False by blast
qed

text \<open>
  The notions of \<open>last_path_before\<close> and \<open>pass_runs_at\<close> describe the loop: as long
  as no exception leaves it, every iteration starts with \<open>last_evaluated_model_path\<close>
  equal to \<open>last_path_before\<close> at its index, and it runs a pass exactly when
  \<open>pass_runs_at\<close> holds there.
\<close>

lemma poll_iteration_step:
  fixes a :: "('v, 'm) eval_args" and w :: "('v, 'm) world"
  assumes inv: "last_evaluated_model_path s = last_path_before w d (number_of_evaluations s)"
      and ok: "pass_runs_at w d (number_of_evaluations s)
               \<longrightarrow> snd (run_checkpoint_once a (tf_at w (number_of_evaluations s))) = None"
  obtains s' where
    "poll_iteration a iv m w d s
       = (s', if truthy m \<and> the m \<le> int (Suc (number_of_evaluations s)) then Finished else Continue)"
    and "number_of_evaluations s' = Suc (number_of_evaluations s)"
    and "passes_entered (events s') \<le> passes_entered (events s) + 1"
    and "last_evaluated_model_path s' = last_path_before w d (Suc (number_of_evaluations s))"
proof -
  let ?i = "number_of_evaluations s"
  let ?mp = "latest_checkpoint (tf_at w ?i) d"
  obtain s' r where it: "poll_iteration a iv m w d s = (s', r)"
    by (cases "poll_iteration a iv m w d s") auto
  note ev = poll_iteration_events[OF it refl refl refl refl refl refl]
  have skip: "(?mp = None \<or> ?mp = Some [] \<or> ?mp = last_evaluated_model_path s)
              \<longleftrightarrow> \<not> pass_runs_at w d ?i"
    using inv by (simp add: pass_runs_at_def Let_def)
  have raised: "(if ?mp = None \<or> ?mp = Some [] \<or> ?mp = last_evaluated_model_path s then None
                 else snd (run_checkpoint_once a (tf_at w ?i))) = None"
    using ok skip by auto
  have r: "r = (if truthy m \<and> the m \<le> int (Suc ?i) then Finished else Continue)"
    using ev(2) raised by simp
  have n: "number_of_evaluations s' = Suc ?i"
    using ev(4) raised by simp
  have p: "passes_entered (events s') \<le> passes_entered (events s) + 1"
    unfolding ev(3)
    using pass_enters_at_most_once[of a "tf_at w ?i"]
    by (simp split: if_splits)
  have l: "last_evaluated_model_path s' = last_path_before w d (Suc ?i)"
    unfolding ev(1) using inv by (auto simp: Let_def)
  have it': "poll_iteration a iv m w d s
       = (s', if truthy m \<and> the m \<le> int (Suc ?i) then Finished else Continue)"
    using it r by simp
  show ?thesis by (rule that[OF it' n p l])
qed


lemma polling_loop_finishes:
  fixes a :: "('v, 'm) eval_args" and w :: "('v, 'm) world"
  assumes noraise: "\<forall>i<nat M. pass_runs_at w d i \<longrightarrow> snd (run_checkpoint_once a (tf_at w i)) = None"
      and pos: "0 < M"
  shows "number_of_evaluations s < nat M \<Longrightarrow>
         last_evaluated_model_path s = last_path_before w d (number_of_evaluations s) \<Longrightarrow>
         \<exists>s'. polling_loop a iv (Some M) w d s = Some (s', None)
            \<and> number_of_evaluations s' = nat M
            \<and> passes_entered (events s')
                \<le> passes_entered (events s) + (nat M - number_of_evaluations s)"
proof (induction k \<equiv> "nat M - number_of_evaluations s" arbitrary: s)
  case 0
  then show ?case by simp
next
  case (Suc k)
  have ok: "pass_runs_at w d (number_of_evaluations s)
            \<longrightarrow> snd (run_checkpoint_once a (tf_at w (number_of_evaluations s))) = None"
    using noraise Suc.prems(1) by blast
  obtain s1 where it: "poll_iteration a iv (Some M) w d s
       = (s1, if truthy (Some M) \<and> the (Some M) \<le> int (Suc (number_of_evaluations s))
              then Finished else Continue)"
    and n1: "number_of_evaluations s1 = Suc (number_of_evaluations s)"
    and p1: "passes_entered (events s1) \<le> passes_entered (events s) + 1"
    and l1: "last_evaluated_model_path s1 = last_path_before w d (Suc (number_of_evaluations s))"
    using poll_iteration_step[OF Suc.prems(2) ok, of iv "Some M"] by blast
  have tr: "truthy (Some M)" using pos by (simp add: truthy_def)
  show ?case
  proof (cases "M \<le> int (Suc (number_of_evaluations s))")
    case True
    then have fin: "poll_iteration a iv (Some M) w d s = (s1, Finished)"
      using it tr by simp
    have "nat M = Suc (number_of_evaluations s)" using True Suc.prems(1) by linarith
    then show ?thesis
      using fin n1 p1 by (subst polling_loop.simps) simp
  next
    case False
    then have cont: "poll_iteration a iv (Some M) w d s = (s1, Continue)"
      using it by simp
    have lt: "number_of_evaluations s1 < nat M" using False n1 by linarith
    have k: "k = nat M - number_of_evaluations s1" using Suc.hyps(2) n1 by simp
    have inv1: "last_evaluated_model_path s1 = last_path_before w d (number_of_evaluations s1)"
      using l1 n1 by simp
    from Suc.hyps(1)[OF k lt inv1] obtain s' where
      "polling_loop a iv (Some M) w d s1 = Some (s', None)"
      "number_of_evaluations s' = nat M"
      "passes_entered (events s') \<le> passes_entered (events s1) + (nat M - number_of_evaluations s1)"
      by blast
    then show ?thesis
      using cont n1 p1 lt by (subst polling_loop.simps) auto
  qed
qed


lemma polling_loop_goes_on:
  fixes a :: "('v, 'm) eval_args" and w :: "('v, 'm) world"
  assumes noraise: "\<forall>i. pass_runs_at w d i \<longrightarrow> snd (run_checkpoint_once a (tf_at w i)) = None"
      and falsy: "\<not> truthy m"
      and inv: "last_evaluated_model_path s = last_path_before w d (number_of_evaluations s)"
  shows "polling_loop a iv m w d s = None"
proof (rule ccontr)
  assume "polling_loop a iv m w d s \<noteq> None"
  then obtain y where y: "polling_loop a iv m w d s = Some y" by auto
  have "\<not> ((\<forall>i. pass_runs_at w d i \<longrightarrow> snd (run_checkpoint_once a (tf_at w i)) = None)
           \<and> \<not> truthy m
           \<and> last_evaluated_model_path s = last_path_before w d (number_of_evaluations s))"
  proof (rule polling_loop.raw_induct
      [where P = "\<lambda>a iv m w d s y.
                    \<not> ((\<forall>i. pass_runs_at w d i \<longrightarrow> snd (run_checkpoint_once a (tf_at w i)) = None)
                       \<and> \<not> truthy m
                       \<and> last_evaluated_model_path s
                           = last_path_before w d (number_of_evaluations s))",
       OF _ y])
    fix loop :: "('v, 'm) eval_args \<Rightarrow> real \<Rightarrow> int option \<Rightarrow> ('v, 'm) world \<Rightarrow> string
                 \<Rightarrow> 'm poll_state \<Rightarrow> ('m poll_state \<times> error option) option"
    fix a :: "('v, 'm) eval_args" and iv m and w :: "('v, 'm) world" and d s y
    assume IH: "\<And>a iv m w d s y. loop a iv m w d s = Some y \<Longrightarrow>
                 \<not> ((\<forall>i. pass_runs_at w d i \<longrightarrow> snd (run_checkpoint_once a (tf_at w i)) = None)
                    \<and> \<not> truthy m
                    \<and> last_evaluated_model_path s
                        = last_path_before w d (number_of_evaluations s))"
      and step: "(case poll_iteration a iv m w d s of
                    (s', Raised e) \<Rightarrow> Some (s', Some e)
                  | (s', Finished) \<Rightarrow> Some (s', None)
                  | (s', Continue) \<Rightarrow> loop a iv m w d s') = Some y"
    show "\<not> ((\<forall>i. pass_runs_at w d i \<longrightarrow> snd (run_checkpoint_once a (tf_at w i)) = None)
             \<and> \<not> truthy m
             \<and> last_evaluated_model_path s = last_path_before w d (number_of_evaluations s))"
    proof
      assume h: "(\<forall>i. pass_runs_at w d i \<longrightarrow> snd (run_checkpoint_once a (tf_at w i)) = None)
             \<and> \<not> truthy m
             \<and> last_evaluated_model_path s = last_path_before w d (number_of_evaluations s)"
      note h1 = h[THEN conjunct1]
      note h2 = h[THEN conjunct2, THEN conjunct1]
      note h3 = h[THEN conjunct2, THEN conjunct2]
      have ok: "pass_runs_at w d (number_of_evaluations s)
            \<longrightarrow> snd (run_checkpoint_once a (tf_at w (number_of_evaluations s))) = None"
        using h1 by blast
      obtain s1 where it0: "poll_iteration a iv m w d s
           = (s1, if truthy m \<and> the m \<le> int (Suc (number_of_evaluations s))
                  then Finished else Continue)"
        and n1: "number_of_evaluations s1 = Suc (number_of_evaluations s)"
        and p1: "passes_entered (events s1) \<le> passes_entered (events s) + 1"
        and l1: "last_evaluated_model_path s1 = last_path_before w d (Suc (number_of_evaluations s))"
        using poll_iteration_step[OF h3 ok, of iv m] by blast
      have it: "poll_iteration a iv m w d s = (s1, Continue)"
        using it0 h2 by simp
      from step have next_run: "loop a iv m w d s1 = Some y"
        unfolding it by simp
      have inv1: "last_evaluated_model_path s1 = last_path_before w d (number_of_evaluations s1)"
        using l1 n1 by simp
      have "(\<forall>i. pass_runs_at w d i \<longrightarrow> snd (run_checkpoint_once a (tf_at w i)) = None)
             \<and> \<not> truthy m
             \<and> last_evaluated_model_path s1 = last_path_before w d (number_of_evaluations s1)"
        by (intro conjI h1 h2 inv1)
      with IH[OF next_run] show False by (rule notE)
    qed
  qed
  moreover have "(\<forall>i. pass_runs_at w d i \<longrightarrow> snd (run_checkpoint_once a (tf_at w i)) = None)
           \<and> \<not> truthy m
           \<and> last_evaluated_model_path s = last_path_before w d (number_of_evaluations s)"
    by (intro conjI noraise falsy inv)
  ultimately show False by (rule notE)
qed


lemma example_pass:
  "run_checkpoint_once example_args example_env
   = ([NewSession [], RunInitializers, SaverRestore (Some ''ckpt/model-1''), QueueRunnersEnter,
       RunBatch 0, RunBatch 1, RunBatch 2, FileWriterOpen ''s'', AddSummary ''n'' 2 7,
       FileWriterClose, QueueRunnersExit, SessionClose], None)"
  by (simp add: run_checkpoint_once_def restore_variables_def with_queue_runners_def try_body_def
      finally_block_def write_metrics_def valid_keys_def init_result_lists_def process_batch_def
      append_results_def upt_rec)

text \<open>
  Claim C5: a polling iteration that resolves the path that was evaluated last (or no
  path) runs no pass and writes nothing: it adds no event but a possible sleep and
  leaves the last evaluated path as it is. An iteration runs a pass only when the resolved
  path exists and differs from the last evaluated one, and then records that path.
\<close>

theorem same_checkpoint_is_not_evaluated_again:
  fixes a :: "('v, 'm) eval_args" and w :: "('v, 'm) world"
  assumes "poll_iteration a eval_interval_secs max_number_of_evaluations w dir0 s = (s', r)"
      and "model_path = latest_checkpoint (tf_at w (number_of_evaluations s)) dir0"
  shows "(model_path = last_evaluated_model_path s \<or> model_path = None \<or> model_path = Some []
          \<longrightarrow> last_evaluated_model_path s' = last_evaluated_model_path s
              \<and> (\<exists>sl. events s' = events s @ sl \<and> set sl \<subseteq> range Sleep))
       \<and> (\<not> (model_path = last_evaluated_model_path s \<or> model_path = None \<or> model_path = Some [])
          \<longrightarrow> last_evaluated_model_path s' = model_path
              \<and> (\<exists>sl. events s' = events s
                          @ fst (run_checkpoint_once a (tf_at w (number_of_evaluations s))) @ sl
                       \<and> set sl \<subseteq> range Sleep))"
proof -
  note ev = poll_iteration_events[OF assms(1) refl assms(2) refl refl refl refl]
  show ?thesis
  proof (intro conjI impI)
    assume skip: "model_path = last_evaluated_model_path s \<or> model_path = None \<or> model_path = Some []"
    then show "last_evaluated_model_path s' = last_evaluated_model_path s"
      using ev(1) by auto
    show "\<exists>sl. events s' = events s @ sl \<and> set sl \<subseteq> range Sleep"
      using ev(3) skip by (auto split: if_splits)
  next
    assume run: "\<not> (model_path = last_evaluated_model_path s \<or> model_path = None \<or> model_path = Some [])"
    then show "last_evaluated_model_path s' = model_path"
      using ev(1) by auto
    show "\<exists>sl. events s' = events s
                          @ fst (run_checkpoint_once a (tf_at w (number_of_evaluations s))) @ sl
                       \<and> set sl \<subseteq> range Sleep"
      using ev(3) run by (auto split: if_splits)
  qed
qed


theorem same_checkpoint_is_not_evaluated_again_witness:
  "poll_iteration example_args 120 (Some 5) example_world ''ckpt''
     \<lparr>last_evaluated_model_path = Some ''ckpt/model-1'', number_of_evaluations = 1,
      clock = 120, events = [SessionClose]\<rparr>
   = (\<lparr>last_evaluated_model_path = Some ''ckpt/model-1'', number_of_evaluations = 2,
       clock = 240, events = [SessionClose, Sleep 90]\<rparr>, Continue)
   \<and> latest_checkpoint (tf_at example_world 1) ''ckpt'' = Some ''ckpt/model-1''
   \<and> (\<exists>sl. [SessionClose, Sleep 90] = [SessionClose] @ sl \<and> set sl \<subseteq> range Sleep)"
proof -
  have it: "poll_iteration example_args 120 (Some 5) example_world ''ckpt''
     \<lparr>last_evaluated_model_path = Some ''ckpt/model-1'', number_of_evaluations = 1,
      clock = 120, events = [SessionClose]\<rparr>
   = (\<lparr>last_evaluated_model_path = Some ''ckpt/model-1'', number_of_evaluations = 2,
       clock = 240, events = [SessionClose, Sleep 90]\<rparr>, Continue)"
    by (simp add: poll_iteration_def Let_def truthy_def)
  have mp: "Some ''ckpt/model-1''
      = latest_checkpoint (tf_at example_world (number_of_evaluations
          \<lparr>last_evaluated_model_path = Some ''ckpt/model-1'', number_of_evaluations = 1,
           clock = 120, events = [SessionClose :: int event]\<rparr>)) ''ckpt''"
    by simp
  from same_checkpoint_is_not_evaluated_again[OF it mp]
  have "\<exists>sl. [SessionClose, Sleep 90] = [SessionClose] @ sl \<and> set sl \<subseteq> (range Sleep :: int event set)"
    by simp
  with it show ?thesis by simp
qed

text \<open>
  Claim C8, as stated: for a positive maximum \<open>M\<close> the loop stops after \<open>M\<close> evaluation
  passes have been run. It fails: \<open>number_of_evaluations\<close> counts iterations of the loop,
  also those that find the checkpoint already evaluated. With \<open>M = 2\<close> and one checkpoint
  the loop stops after two polls and a single pass.
\<close>

theorem polling_stops_after_two_polls_with_one_pass:
  "repeated_checkpoint_run example_args 120 (Some 2) example_world
   = Some (\<lparr>last_evaluated_model_path = Some ''ckpt/model-1'', number_of_evaluations = 2,
            clock = 150,
            events = [NewSession [], RunInitializers, SaverRestore (Some ''ckpt/model-1''),
                      QueueRunnersEnter, RunBatch 0, RunBatch 1, RunBatch 2,
                      FileWriterOpen ''s'', AddSummary ''n'' 2 7, FileWriterClose,
                      QueueRunnersExit, SessionClose, Sleep 90]\<rparr>, None)"
proof -
  have it1: "poll_iteration example_args 120 (Some 2) example_world ''ckpt''
               (initial_poll_state example_world)
        = (\<lparr>last_evaluated_model_path = Some ''ckpt/model-1'', number_of_evaluations = 1,
            clock = 120,
            events = [NewSession [], RunInitializers, SaverRestore (Some ''ckpt/model-1''),
                      QueueRunnersEnter, RunBatch 0, RunBatch 1, RunBatch 2,
                      FileWriterOpen ''s'', AddSummary ''n'' 2 7, FileWriterClose,
                      QueueRunnersExit, SessionClose, Sleep 90]\<rparr>, Continue)"
    using example_pass
    by (simp add: poll_iteration_def Let_def truthy_def initial_poll_state_def)
  have it2: "poll_iteration example_args 120 (Some 2) example_world ''ckpt''
          \<lparr>last_evaluated_model_path = Some ''ckpt/model-1'', number_of_evaluations = 1,
            clock = 120,
            events = [NewSession [], RunInitializers, SaverRestore (Some ''ckpt/model-1''),
                      QueueRunnersEnter, RunBatch 0, RunBatch 1, RunBatch 2,
                      FileWriterOpen ''s'', AddSummary ''n'' 2 7, FileWriterClose,
                      QueueRunnersExit, SessionClose, Sleep 90]\<rparr>
        = (\<lparr>last_evaluated_model_path = Some ''ckpt/model-1'', number_of_evaluations = 2,
            clock = 150,
            events = [NewSession [], RunInitializers, SaverRestore (Some ''ckpt/model-1''),
                      QueueRunnersEnter, RunBatch 0, RunBatch 1, RunBatch 2,
                      FileWriterOpen ''s'', AddSummary ''n'' 2 7, FileWriterClose,
                      QueueRunnersExit, SessionClose, Sleep 90]\<rparr>, Finished)"
    by (simp add: poll_iteration_def Let_def truthy_def)
  have "repeated_checkpoint_run example_args 120 (Some 2) example_world
        = polling_loop example_args 120 (Some 2) example_world ''ckpt''
            (initial_poll_state example_world)"
    by (simp add: repeated_checkpoint_run_def truthy_def)
  also have "\<dots> = polling_loop example_args 120 (Some 2) example_world ''ckpt''
          \<lparr>last_evaluated_model_path = Some ''ckpt/model-1'', number_of_evaluations = 1,
            clock = 120,
            events = [NewSession [], RunInitializers, SaverRestore (Some ''ckpt/model-1''),
                      QueueRunnersEnter, RunBatch 0, RunBatch 1, RunBatch 2,
                      FileWriterOpen ''s'', AddSummary ''n'' 2 7, FileWriterClose,
                      QueueRunnersExit, SessionClose, Sleep 90]\<rparr>"
    by (subst polling_loop.simps) (simp only: it1 prod.case step_result.case)
  also have "\<dots> = Some (\<lparr>last_evaluated_model_path = Some ''ckpt/model-1'', number_of_evaluations = 2,
            clock = 150,
            events = [NewSession [], RunInitializers, SaverRestore (Some ''ckpt/model-1''),
                      QueueRunnersEnter, RunBatch 0, RunBatch 1, RunBatch 2,
                      FileWriterOpen ''s'', AddSummary ''n'' 2 7, FileWriterClose,
                      QueueRunnersExit, SessionClose, Sleep 90]\<rparr>, None)"
    by (subst polling_loop.simps) (simp only: it2 prod.case step_result.case)
  finally show ?thesis .
qed


text \<open>
  Claim C8, amended: for a positive maximum \<open>M\<close>, if no pass that runs raises, the loop
  stops after exactly \<open>M\<close> polling iterations, in which at most \<open>M\<close> passes have run (an
  iteration that finds no checkpoint, or the one already evaluated, counts as well); if
  the maximum is unset and no pass that runs raises, the loop never returns. An iteration
  that is followed by another one sleeps for the interval less the time it spent, when
  that is positive, and does not sleep otherwise; the iteration that ends the loop does
  not sleep.
\<close>

theorem polling_stops_after_max_polls_and_sleeps_the_rest:
  fixes a :: "('v, 'm) eval_args" and w :: "('v, 'm) world"
  shows
  "(0 < M \<and> checkpoint_dirs a = Some (dir0 # dirs)
      \<and> (\<forall>i<nat M. pass_runs_at w dir0 i \<longrightarrow> snd (run_checkpoint_once a (tf_at w i)) = None)
    \<longrightarrow> (\<exists>s'. repeated_checkpoint_run a eval_interval_secs (Some M) w = Some (s', None)
            \<and> number_of_evaluations s' = nat M
            \<and> passes_entered (events s') \<le> nat M))
   \<and> (checkpoint_dirs a = Some (dir0 # dirs)
      \<and> (\<forall>i. pass_runs_at w dir0 i \<longrightarrow> snd (run_checkpoint_once a (tf_at w i)) = None)
    \<longrightarrow> repeated_checkpoint_run a eval_interval_secs None w = None)
   \<and> (poll_iteration a eval_interval_secs m w dir0 s = (s', r) \<and> r \<noteq> Continue
    \<longrightarrow> (\<exists>pe. (pe = [] \<or> pe = fst (run_checkpoint_once a (tf_at w (number_of_evaluations s))))
              \<and> events s' = events s @ pe))
   \<and> (poll_iteration a eval_interval_secs m w dir0 s = (s', Continue)
    \<longrightarrow> (\<exists>pe. (pe = [] \<or> pe = fst (run_checkpoint_once a (tf_at w (number_of_evaluations s))))
              \<and> events s' = events s @ pe
                   @ (if time_spent w (number_of_evaluations s) < eval_interval_secs
                      then [Sleep (eval_interval_secs - time_spent w (number_of_evaluations s))]
                      else []))
         \<and> clock s' = clock s + max eval_interval_secs (time_spent w (number_of_evaluations s)))"
proof (intro conjI impI)
  assume h: "0 < M \<and> checkpoint_dirs a = Some (dir0 # dirs)
      \<and> (\<forall>i<nat M. pass_runs_at w dir0 i \<longrightarrow> snd (run_checkpoint_once a (tf_at w i)) = None)"
  note pos = h[THEN conjunct1]
  note dirs = h[THEN conjunct2, THEN conjunct1]
  note noraise = h[THEN conjunct2, THEN conjunct2]
  have run: "repeated_checkpoint_run a eval_interval_secs (Some M) w
        = polling_loop a eval_interval_secs (Some M) w dir0 (initial_poll_state w)"
    using pos dirs by (simp add: repeated_checkpoint_run_def truthy_def)
  have start: "number_of_evaluations (initial_poll_state w) < nat M"
    using pos by (simp add: initial_poll_state_def)
  have inv: "last_evaluated_model_path (initial_poll_state w)
        = last_path_before w dir0 (number_of_evaluations (initial_poll_state w))"
    by (simp add: initial_poll_state_def)
  from polling_loop_finishes[OF noraise pos start inv, of eval_interval_secs]
  obtain s' where "polling_loop a eval_interval_secs (Some M) w dir0 (initial_poll_state w)
        = Some (s', None)"
      "number_of_evaluations s' = nat M"
      "passes_entered (events s')
         \<le> passes_entered (events (initial_poll_state w))
            + (nat M - number_of_evaluations (initial_poll_state w))"
    by blast
  then show "\<exists>s'. repeated_checkpoint_run a eval_interval_secs (Some M) w = Some (s', None)
            \<and> number_of_evaluations s' = nat M
            \<and> passes_entered (events s') \<le> nat M"
    unfolding run by (intro exI[of _ s']) (simp add: initial_poll_state_def)
next
  assume h: "checkpoint_dirs a = Some (dir0 # dirs)
      \<and> (\<forall>i. pass_runs_at w dir0 i \<longrightarrow> snd (run_checkpoint_once a (tf_at w i)) = None)"
  note dirs = h[THEN conjunct1]
  note noraise = h[THEN conjunct2]
  have falsy: "\<not> truthy None" by (simp add: truthy_def)
  have inv: "last_evaluated_model_path (initial_poll_state w)
        = last_path_before w dir0 (number_of_evaluations (initial_poll_state w))"
    by (simp add: initial_poll_state_def)
  have "repeated_checkpoint_run a eval_interval_secs None w
        = polling_loop a eval_interval_secs None w dir0 (initial_poll_state w)"
    using dirs by (simp add: repeated_checkpoint_run_def truthy_def)
  also have "\<dots> = None"
    by (rule polling_loop_goes_on[OF noraise falsy inv])
  finally show "repeated_checkpoint_run a eval_interval_secs None w = None" .
next
  assume h: "poll_iteration a eval_interval_secs m w dir0 s = (s', r) \<and> r \<noteq> Continue"
  note ev = poll_iteration_events[OF h[THEN conjunct1] refl refl refl refl refl refl]
  show "\<exists>pe. (pe = [] \<or> pe = fst (run_checkpoint_once a (tf_at w (number_of_evaluations s))))
              \<and> events s' = events s @ pe"
    using ev(3) h by (auto split: if_splits)
next
  assume h: "poll_iteration a eval_interval_secs m w dir0 s = (s', Continue)"
  note ev = poll_iteration_events[OF h refl refl refl refl refl refl]
  show "\<exists>pe. (pe = [] \<or> pe = fst (run_checkpoint_once a (tf_at w (number_of_evaluations s))))
              \<and> events s' = events s @ pe
                   @ (if time_spent w (number_of_evaluations s) < eval_interval_secs
                      then [Sleep (eval_interval_secs - time_spent w (number_of_evaluations s))]
                      else [])"
    using ev(3) by (auto split: if_splits)
  show "clock s' = clock s + max eval_interval_secs (time_spent w (number_of_evaluations s))"
    using ev(5) by (auto simp: max_def split: if_splits)
qed


theorem polling_stops_after_max_polls_and_sleeps_the_rest_witness:
  "(0::int) < 2 \<and> checkpoint_dirs example_args = Some (''ckpt'' # [])
   \<and> pass_runs_at flaky_world ''ckpt'' 0
   \<and> snd (run_checkpoint_once example_args (tf_at flaky_world 0)) = None
   \<and> \<not> pass_runs_at flaky_world ''ckpt'' 1
   \<and> snd (run_checkpoint_once example_args (tf_at flaky_world 1)) = Some (OtherError ''restore'')
   \<and> (\<exists>s'. repeated_checkpoint_run example_args 120 (Some 2) flaky_world = Some (s', None)
          \<and> number_of_evaluations s' = 2
          \<and> passes_entered (events s') \<le> 2)
   \<and> repeated_checkpoint_run example_args 120 None example_world = None
   \<and> poll_iteration example_args 120 (Some 2) example_world ''ckpt''
         \<lparr>last_evaluated_model_path = Some ''ckpt/model-1'', number_of_evaluations = 1,
          clock = 120, events = [SessionClose]\<rparr>
       = (\<lparr>last_evaluated_model_path = Some ''ckpt/model-1'', number_of_evaluations = 2,
           clock = 150, events = [SessionClose]\<rparr>, Finished)
   \<and> (\<exists>pe. (pe = [] \<or> pe = fst (run_checkpoint_once example_args (tf_at example_world 1)))
           \<and> [SessionClose] = [SessionClose] @ pe)
   \<and> poll_iteration example_args 120 (Some 5) example_world ''ckpt''
         \<lparr>last_evaluated_model_path = Some ''ckpt/model-1'', number_of_evaluations = 1,
          clock = 120, events = [SessionClose]\<rparr>
       = (\<lparr>last_evaluated_model_path = Some ''ckpt/model-1'', number_of_evaluations = 2,
           clock = 240, events = [SessionClose, Sleep 90]\<rparr>, Continue)
   \<and> (\<exists>pe. (pe = [] \<or> pe = fst (run_checkpoint_once example_args (tf_at example_world 1)))
           \<and> [SessionClose, Sleep 90] = [SessionClose] @ pe @ [Sleep 90])
   \<and> (240::real) = 120 + max 120 30"
proof -
  let ?s1 = "\<lparr>last_evaluated_model_path = Some ''ckpt/model-1'', number_of_evaluations = 1,
          clock = 120, events = [SessionClose]\<rparr> :: int poll_state"
  let ?s2 = "\<lparr>last_evaluated_model_path = Some ''ckpt/model-1'', number_of_evaluations = 2,
           clock = 150, events = [SessionClose]\<rparr> :: int poll_state"
  let ?s3 = "\<lparr>last_evaluated_model_path = Some ''ckpt/model-1'', number_of_evaluations = 2,
           clock = 240, events = [SessionClose, Sleep 90]\<rparr> :: int poll_state"
  have pos: "(0::int) < 2" by simp
  have dirs: "checkpoint_dirs example_args = Some (''ckpt'' # [])" by simp
  have r0: "pass_runs_at flaky_world ''ckpt'' 0" by (simp add: pass_runs_at_def)
  have p0: "snd (run_checkpoint_once example_args (tf_at flaky_world 0)) = None"
    using example_pass by simp
  have r1: "\<not> pass_runs_at flaky_world ''ckpt'' 1" by (simp add: pass_runs_at_def)
  have p1: "snd (run_checkpoint_once example_args (tf_at flaky_world 1)) = Some (OtherError ''restore'')"
    by (simp add: run_checkpoint_once_def restore_variables_def)
  have hyp: "\<forall>i<nat 2. pass_runs_at flaky_world ''ckpt'' i
               \<longrightarrow> snd (run_checkpoint_once example_args (tf_at flaky_world i)) = None"
  proof (intro allI impI)
    fix i :: nat
    assume "i < nat 2" and run: "pass_runs_at flaky_world ''ckpt'' i"
    then have "i = 0 \<or> i = 1" by auto
    then show "snd (run_checkpoint_once example_args (tf_at flaky_world i)) = None"
    proof
      assume "i = 0" with p0 show ?thesis by simp
    next
      assume "i = 1" with run r1 show ?thesis by simp
    qed
  qed
  note inst_flaky = polling_stops_after_max_polls_and_sleeps_the_rest
      [where a = example_args and w = flaky_world and M = 2 and ?dir0.0 = "''ckpt''"
         and dirs = "[]" and eval_interval_secs = 120]
  from inst_flaky[THEN conjunct1, rule_format, OF conjI[OF pos conjI[OF dirs hyp]]]
  have a: "\<exists>s'. repeated_checkpoint_run example_args 120 (Some 2) flaky_world = Some (s', None)
          \<and> number_of_evaluations s' = 2
          \<and> passes_entered (events s') \<le> 2"
    by simp
  have hyp_ex: "\<forall>i. pass_runs_at example_world ''ckpt'' i
               \<longrightarrow> snd (run_checkpoint_once example_args (tf_at example_world i)) = None"
    using example_pass by simp
  note inst_none = polling_stops_after_max_polls_and_sleeps_the_rest
      [where a = example_args and w = example_world and ?dir0.0 = "''ckpt''"
         and dirs = "[]" and eval_interval_secs = 120]
  from inst_none[THEN conjunct2, THEN conjunct1, rule_format, OF conjI[OF dirs hyp_ex]]
  have b: "repeated_checkpoint_run example_args 120 None example_world = None" .
  have fin: "poll_iteration example_args 120 (Some 2) example_world ''ckpt'' ?s1 = (?s2, Finished)"
    by (simp add: poll_iteration_def Let_def truthy_def)
  have ne: "Finished \<noteq> Continue" by simp
  note inst_fin = polling_stops_after_max_polls_and_sleeps_the_rest
      [where a = example_args and w = example_world and ?dir0.0 = "''ckpt''" and m = "Some 2"
         and eval_interval_secs = 120 and s = ?s1 and s' = ?s2 and r = Finished]
  from inst_fin[THEN conjunct2, THEN conjunct2, THEN conjunct1, rule_format, OF conjI[OF fin ne]]
  have c: "\<exists>pe. (pe = [] \<or> pe = fst (run_checkpoint_once example_args (tf_at example_world 1)))
           \<and> [SessionClose] = [SessionClose] @ pe"
    by simp
  have cont: "poll_iteration example_args 120 (Some 5) example_world ''ckpt'' ?s1 = (?s3, Continue)"
    by (simp add: poll_iteration_def Let_def truthy_def)
  note inst_cont = polling_stops_after_max_polls_and_sleeps_the_rest
      [where a = example_args and w = example_world and ?dir0.0 = "''ckpt''" and m = "Some 5"
         and eval_interval_secs = 120 and s = ?s1 and s' = ?s3]
  note sleep = inst_cont[THEN conjunct2, THEN conjunct2, THEN conjunct2, rule_format, OF cont]
  from sleep[THEN conjunct1]
  have d: "\<exists>pe. (pe = [] \<or> pe = fst (run_checkpoint_once example_args (tf_at example_world 1)))
           \<and> [SessionClose, Sleep 90] = [SessionClose] @ pe @ [Sleep 90]"
    by simp
  from sleep[THEN conjunct2]
  have e: "(240::real) = 120 + max 120 30" by simp
  show ?thesis
    by (intro conjI pos dirs r0 p0 r1 p1 a b fin c cont d e)
qed

text \<open>
  Claim C2, at the pass limit \<open>0\<close>: the guard \<open>max_number_of_evaluations and ... <= 0\<close>
  is false for \<open>0\<close>, so no \<open>ValueError\<close> is raised; the loop starts and, the limit being
  false in the exit test as well, never returns. A negative limit is rejected at once.
\<close>

theorem pass_limit_zero_is_not_rejected:
  "repeated_checkpoint_run example_args 120 (Some 0) example_world = None
   \<and> repeated_checkpoint_run example_args 120 (Some (- 1)) example_world
       = Some (initial_poll_state example_world,
               Some (ValueError ''`number_of_steps` must be either None or a positive number.''))"
proof -
  have neg: "repeated_checkpoint_run example_args 120 (Some (- 1)) example_world
       = Some (initial_poll_state example_world,
               Some (ValueError ''`number_of_steps` must be either None or a positive number.''))"
    by (simp add: repeated_checkpoint_run_def truthy_def)
  have "repeated_checkpoint_run example_args 120 (Some 0) example_world
        = polling_loop example_args 120 (Some 0) example_world ''ckpt''
            (initial_poll_state example_world)"
    by (simp add: repeated_checkpoint_run_def truthy_def)
  also have "\<dots> = None"
    using example_pass by (intro polling_loop_never_returns) (simp_all add: truthy_def)
  finally show ?thesis using neg by simp
qed


end
